theory Spec2Isabelle
  imports Complex_Main "HOL-Library.Sublist"
begin

section \<open>Python strings\<close>

text \<open>
  A Python \<open>str\<close> is a sequence of Unicode code points. A character is modelled by its
  code point and a string by the list of its code points, so that \<open>len\<close>, \<open>strip\<close> and the
  regular-expression classes \<open>\s\<close> and \<open>.\<close> see what Python sees. \<open>asc\<close> embeds an ASCII
  literal; characters beyond ASCII are written as code points.
\<close>

type_synonym pychar = nat
type_synonym pystr = "pychar list"

definition asc :: "string \<Rightarrow> pystr" where
  "asc s = map of_char s"

definition nl :: pychar where "nl = 10"
definition hash :: pychar where "hash = 35"
definition star :: pychar where "star = 42"
definition dash :: pychar where "dash = 45"
definition lbr :: pychar where "lbr = 91"
definition tick :: pychar where "tick = 96"
definition pipe :: pychar where "pipe = 124"

text \<open>
  \<open>str.isspace\<close>, which is also the class \<open>\s\<close> of \<open>re\<close> on a \<open>str\<close> pattern: the code
  points U+0009..U+000D, U+001C..U+0020, U+0085, U+00A0, U+1680, U+2000..U+200A, U+2028,
  U+2029, U+202F, U+205F and U+3000.
\<close>

definition is_space :: "pychar \<Rightarrow> bool" where
  "is_space c =
     ((9 \<le> c \<and> c \<le> 13) \<or> (28 \<le> c \<and> c \<le> 32) \<or> c = 133 \<or> c = 160 \<or> c = 5760 \<or>
      (8192 \<le> c \<and> c \<le> 8202) \<or> c = 8232 \<or> c = 8233 \<or> c = 8239 \<or> c = 8287 \<or>
      c = 12288)"

text \<open>\<open>s.strip()\<close>: leading and trailing whitespace removed.\<close>

definition strip :: "pystr \<Rightarrow> pystr" where
  "strip s = rev (dropWhile is_space (rev (dropWhile is_space s)))"

section \<open>Regular-expression substitution\<close>

text \<open>
  \<open>re.sub(pattern, repl, s)\<close> scans \<open>s\<close> from the left. Where the pattern matches at the
  current position the replacement is emitted and the scan goes on behind the match;
  otherwise the character is copied and the scan moves one character on. A pattern is
  modelled by a matcher: tried at the start of the remaining input, it gives the
  replacement text and the length of the match. None of the patterns used here matches
  the empty string.
\<close>

type_synonym matcher = "pystr \<Rightarrow> (pystr \<times> nat) option"

fun re_sub :: "matcher \<Rightarrow> pystr \<Rightarrow> pystr" where
  "re_sub m [] = []"
| "re_sub m (c # cs) =
     (case m (c # cs) of
        None \<Rightarrow> c # re_sub m cs
      | Some (r, n) \<Rightarrow> r @ re_sub m (drop (n - 1) cs))"

text \<open>A literal \<open>d\<close> at the start of the input: the length it matches.\<close>

definition lit :: "pystr \<Rightarrow> pystr \<Rightarrow> nat option" where
  "lit d s = (if prefix d s then Some (length d) else None)"

text \<open>
  The lazy \<open>.*?\<close> followed by the rest \<open>k\<close> of a pattern: the rest is tried first, and
  only where it fails one more character other than a newline is taken. The result is
  the number of characters \<open>.*?\<close> took and the length the rest matched.
\<close>

fun lazy_dot :: "(pystr \<Rightarrow> nat option) \<Rightarrow> pystr \<Rightarrow> (nat \<times> nat) option" where
  "lazy_dot k [] = (case k [] of None \<Rightarrow> None | Some n \<Rightarrow> Some (0, n))"
| "lazy_dot k (c # cs) =
     (case k (c # cs) of
        Some n \<Rightarrow> Some (0, n)
      | None \<Rightarrow>
          if c = nl then None
          else (case lazy_dot k cs of None \<Rightarrow> None | Some (g, n) \<Rightarrow> Some (Suc g, n)))"

text \<open>
  The pattern \<open>op(.*?)cl\<close> with literal delimiters, replaced by its group (\<open>keep\<close>) or by
  the empty string.
\<close>

definition m_delim :: "pystr \<Rightarrow> pystr \<Rightarrow> bool \<Rightarrow> matcher" where
  "m_delim op cl keep s =
     (if prefix op s then
        (case lazy_dot (lit cl) (drop (length op) s) of
           None \<Rightarrow> None
         | Some (g, n) \<Rightarrow>
             Some (if keep then take g (drop (length op) s) else [], length op + g + n))
      else None)"

text \<open>\<open>#{1,6}\s*\<close> replaced by the empty string.\<close>

definition m_heading :: matcher where
  "m_heading s =
     (let k = min 6 (length (takeWhile (\<lambda>c. c = hash) s)) in
      if k = 0 then None
      else Some ([], k + length (takeWhile is_space (drop k s))))"

text \<open>\<open>\*\*(.*?)\*\*\<close>, \<open>\*(.*?)\*\<close> and the inline-code pattern, each replaced by its group.\<close>

definition m_bold :: matcher where
  "m_bold = m_delim [star, star] [star, star] True"

definition m_italic :: matcher where
  "m_italic = m_delim [star] [star] True"

definition m_code :: matcher where
  "m_code = m_delim [tick] [tick] True"

text \<open>\<open>\[(.*?)\]\(.*?\)\<close> replaced by its first group.\<close>

definition link_tail :: "pystr \<Rightarrow> nat option" where
  "link_tail t =
     (if prefix (asc '']('') t then
        (case lazy_dot (lit (asc '')'')) (drop 2 t) of
           None \<Rightarrow> None
         | Some (g, n) \<Rightarrow> Some (2 + g + n))
      else None)"

definition m_link :: matcher where
  "m_link s =
     (if prefix [lbr] s then
        (case lazy_dot link_tail (drop 1 s) of
           None \<Rightarrow> None
         | Some (g, n) \<Rightarrow> Some (take g (drop 1 s), 1 + g + n))
      else None)"

text \<open>\<open>\|.*?\|\<close> replaced by the empty string.\<close>

definition m_pipe :: matcher where
  "m_pipe = m_delim [pipe] [pipe] False"

text \<open>\<open>-{3,}\<close> replaced by the empty string, and \<open>\n{3,}\<close> replaced by two newlines.\<close>

definition m_run :: "pychar \<Rightarrow> pystr \<Rightarrow> matcher" where
  "m_run c r s =
     (let k = length (takeWhile (\<lambda>x. x = c) s) in
      if 3 \<le> k then Some (r, k) else None)"

definition m_rule :: matcher where
  "m_rule = m_run dash []"

definition m_newlines :: matcher where
  "m_newlines = m_run nl [nl, nl]"

text \<open>\<open>MinerUProcessor._markdown_to_text\<close>: the eight substitutions in order, then \<open>strip\<close>.\<close>

definition markdown_to_text :: "pystr \<Rightarrow> pystr" where
  "markdown_to_text markdown_content =
     (let text = re_sub m_heading markdown_content;
          text = re_sub m_bold text;
          text = re_sub m_italic text;
          text = re_sub m_code text;
          text = re_sub m_link text;
          text = re_sub m_pipe text;
          text = re_sub m_rule text;
          text = re_sub m_newlines text
      in strip text)"

section \<open>Functions of the standard library\<close>

text \<open>\<open>str(n)\<close> for a natural number: its decimal digits.\<close>

fun str_nat :: "nat \<Rightarrow> pystr" where
  "str_nat n = (if n < 10 then [48 + n] else str_nat (n div 10) @ [48 + n mod 10])"

declare str_nat.simps [simp del]

text \<open>
  \<open>s.replace(old, new)\<close>: every occurrence of \<open>old\<close> found from the left, without
  overlap. Every call in the sources has a non-empty \<open>old\<close>.
\<close>

fun py_replace :: "pystr \<Rightarrow> pystr \<Rightarrow> pystr \<Rightarrow> pystr" where
  "py_replace old new [] = []"
| "py_replace old new (c # cs) =
     (if old \<noteq> [] \<and> prefix old (c # cs)
      then new @ py_replace old new (drop (length old - 1) cs)
      else c # py_replace old new cs)"

text \<open>\<open>sep.join(xs)\<close>.\<close>

fun py_join :: "pystr \<Rightarrow> pystr list \<Rightarrow> pystr" where
  "py_join sep [] = []"
| "py_join sep [x] = x"
| "py_join sep (x # y # ys) = x @ sep @ py_join sep (y # ys)"

text \<open>
  \<open>s.split(sep)\<close> for a non-empty separator: the pieces between the occurrences of
  \<open>sep\<close> found from the left, without overlap. \<open>acc\<close> is the piece read so far.
\<close>

fun py_split_acc :: "pystr \<Rightarrow> pystr \<Rightarrow> pystr \<Rightarrow> pystr list" where
  "py_split_acc sep acc [] = [acc]"
| "py_split_acc sep acc (c # cs) =
     (if sep \<noteq> [] \<and> prefix sep (c # cs)
      then acc # py_split_acc sep [] (drop (length sep - 1) cs)
      else py_split_acc sep (acc @ [c]) cs)"

definition py_split :: "pystr \<Rightarrow> pystr \<Rightarrow> pystr list" where
  "py_split sep s = py_split_acc sep [] s"

text \<open>\<open>s.count(sub)\<close> for a non-empty \<open>sub\<close>: the occurrences without overlap.\<close>

fun py_count :: "pystr \<Rightarrow> pystr \<Rightarrow> nat" where
  "py_count sub [] = 0"
| "py_count sub (c # cs) =
     (if sub \<noteq> [] \<and> prefix sub (c # cs)
      then Suc (py_count sub (drop (length sub - 1) cs))
      else py_count sub cs)"

text \<open>\<open>s.endswith(suffix)\<close>.\<close>

definition endswith :: "pystr \<Rightarrow> pystr \<Rightarrow> bool" where
  "endswith s suf = suffix suf s"

text \<open>
  \<open>os.path.join(a, b)\<close> and \<open>os.path.dirname(p)\<close> of \<open>posixpath\<close>, and
  \<open>Path(p).stem\<close> of a POSIX path: the last component that is neither empty nor
  \<open>.\<close>, without its last suffix; a leading or a trailing dot starts no suffix.
\<close>

definition slash :: pychar where "slash = 47"
definition dot :: pychar where "dot = 46"

definition path_join :: "pystr \<Rightarrow> pystr \<Rightarrow> pystr" where
  "path_join a b =
     (if prefix [slash] b then b
      else if a = [] \<or> suffix [slash] a then a @ b
      else a @ [slash] @ b)"

definition rfind :: "pychar \<Rightarrow> pystr \<Rightarrow> nat option" where
  "rfind c s =
     (if c \<in> set s then Some (length s - 1 - length (takeWhile (\<lambda>x. x \<noteq> c) (rev s)))
      else None)"

definition dirname :: "pystr \<Rightarrow> pystr" where
  "dirname p =
     (case rfind slash p of
        None \<Rightarrow> []
      | Some i \<Rightarrow>
          (let h = take (Suc i) p in
           if h \<noteq> [] \<and> set h \<noteq> {slash} then rev (dropWhile (\<lambda>x. x = slash) (rev h)) else h))"

definition path_name :: "pystr \<Rightarrow> pystr" where
  "path_name p =
     (case filter (\<lambda>q. q \<noteq> [] \<and> q \<noteq> [dot]) (py_split [slash] p) of
        [] \<Rightarrow> []
      | q # qs \<Rightarrow> last (q # qs))"

definition path_stem :: "pystr \<Rightarrow> pystr" where
  "path_stem p =
     (let name = path_name p in
      case rfind dot name of
        None \<Rightarrow> name
      | Some i \<Rightarrow> if 0 < i \<and> i < length name - 1 then take i name else name)"

section \<open>JSON\<close>

text \<open>
  The values the sources serialise. \<open>JRaw\<close> is a number already rendered (the \<open>repr\<close>
  of a float).
\<close>

datatype json =
    JStr pystr
  | JInt nat
  | JRaw pystr
  | JArr "json list"
  | JObj "(pystr \<times> json) list"

definition hex_digit :: "nat \<Rightarrow> pychar" where
  "hex_digit d = (if d < 10 then 48 + d else 87 + d)"

text \<open>
  The escapes of \<open>json.dumps(..., ensure_ascii=False)\<close>: the backslash, the double
  quote and the control characters below U+0020; every other character stands for
  itself.
\<close>

definition json_escape :: "pychar \<Rightarrow> pystr" where
  "json_escape c =
     (if c = 92 then [92, 92]
      else if c = 34 then [92, 34]
      else if c = 8 then [92, 98]
      else if c = 12 then [92, 102]
      else if c = 10 then [92, 110]
      else if c = 13 then [92, 114]
      else if c = 9 then [92, 116]
      else if c < 32 then [92, 117, 48, 48, hex_digit (c div 16), hex_digit (c mod 16)]
      else [c])"

definition json_quote :: "pystr \<Rightarrow> pystr" where
  "json_quote s = [34] @ concat (map json_escape s) @ [34]"

text \<open>A newline and the indentation of nesting level \<open>lvl\<close>, two spaces a level.\<close>

definition nli :: "nat \<Rightarrow> pystr" where
  "nli lvl = nl # replicate (2 * lvl) 32"

text \<open>\<open>json.dumps(v, ensure_ascii=False, indent=2)\<close> at nesting level \<open>lvl\<close>.\<close>

fun json_enc :: "nat \<Rightarrow> json \<Rightarrow> pystr" where
  "json_enc lvl (JStr s) = json_quote s"
| "json_enc lvl (JInt i) = str_nat i"
| "json_enc lvl (JRaw r) = r"
| "json_enc lvl (JArr xs) =
     (if xs = [] then asc ''[]''
      else asc ''['' @ nli (Suc lvl) @
           py_join (asc '','' @ nli (Suc lvl)) (map (json_enc (Suc lvl)) xs) @
           nli lvl @ asc '']'')"
| "json_enc lvl (JObj kvs) =
     (if kvs = [] then asc ''{}''
      else asc ''{'' @ nli (Suc lvl) @
           py_join (asc '','' @ nli (Suc lvl))
             (map (\<lambda>kv. json_quote (fst kv) @ asc '': '' @ json_enc (Suc lvl) (snd kv)) kvs) @
           nli lvl @ asc ''}'')"

definition json_dumps :: "json \<Rightarrow> pystr" where
  "json_dumps v = json_enc 0 v"

section \<open>Texts of the sources\<close>

text \<open>
  The status texts, prefixes and templates of the three source files, as code points:
  most of them are Chinese. Each is named after what it says.
\<close>

text \<open>The prefix of an error message (app.py 246, streamlit_app_vercel.py 192, mineru_processor.py 79), "chu li PDF shi chu cuo: " (error while processing the PDF).\<close>

definition msg_error_prefix :: pystr where
  "msg_error_prefix =
     [22788, 29702] @ asc '' PDF '' @ [26102, 20986, 38169] @ asc '': ''"

text \<open>The prefix of the status text of a failure (app.py 248, streamlit_app_vercel.py 194, mineru_processor.py 84), "chu li shi bai: " (processing failed).\<close>

definition msg_failed_prefix :: pystr where
  "msg_failed_prefix =
     [22788, 29702, 22833, 36133] @ asc '': ''"

text \<open>The prefix process_pdf_basic of app.py puts before the message of an exception it re-raises (app.py 367), "ji chu chu li shi bai: " (basic processing failed).\<close>

definition msg_basic_failed_prefix :: pystr where
  "msg_basic_failed_prefix =
     [22522, 30784, 22788, 29702, 22833, 36133] @ asc '': ''"

text \<open>Status text of app.py 261 (initialising the basic processor).\<close>

definition msg_init_basic :: pystr where
  "msg_init_basic =
     [21021, 22987, 21270, 22522, 30784, 22788, 29702, 22120] @ asc ''...''"

text \<open>Status text of app.py 270, before the page count.\<close>

definition msg_start_pre :: pystr where
  "msg_start_pre =
     [24320, 22987, 22788, 29702] @ asc '' ''"

text \<open>Status text of app.py 270 and streamlit_app_vercel.py 113, behind the page count.\<close>

definition msg_pages_post :: pystr where
  "msg_pages_post =
     asc '' '' @ [39029, 20869, 23481] @ asc ''...''"

text \<open>The heading each page with text gets in the Markdown (app.py 278, streamlit_app_vercel.py 121), "# ye mian " (page).\<close>

definition page_heading :: pystr where
  "page_heading =
     asc ''# '' @ [39029, 38754] @ asc '' ''"

text \<open>Status text of a page (app.py 284, streamlit_app_vercel.py 127), before the page number.\<close>

definition msg_page_pre :: pystr where
  "msg_page_pre =
     [22788, 29702, 31532] @ asc '' ''"

text \<open>Status text of a page, behind the page count.\<close>

definition msg_page_post :: pystr where
  "msg_page_post =
     asc '' '' @ [39029] @ asc ''...''"

text \<open>Status text "sheng cheng shu chu wen jian..." (writing the output files; app.py 289, streamlit_app_vercel.py 132, mineru_processor.py 128 and 257).\<close>

definition msg_output :: pystr where
  "msg_output =
     [29983, 25104, 36755, 20986, 25991, 20214] @ asc ''...''"

text \<open>Status text "chu li wan cheng!" (processing finished; app.py 347, streamlit_app_vercel.py 172, mineru_processor.py 134).\<close>

definition msg_done :: pystr where
  "msg_done =
     [22788, 29702, 23436, 25104, 65281]"

text \<open>The HTML template of process_pdf_basic in app.py (296-325), before the text.\<close>

definition html_head_app :: pystr where
  "html_head_app =
     asc ''\<newline>'' @
     asc ''<!DOCTYPE html>\<newline>'' @
     asc ''<html>\<newline>'' @
     asc ''<head>\<newline>'' @
     asc ''    <meta charset=\"UTF-8\">\<newline>'' @
     asc ''    <title>PDF '' @ [35299, 26512, 32467, 26524] @ asc ''</title>\<newline>'' @
     asc ''    <style>\<newline>'' @
     asc ''        body { \<newline>'' @
     asc ''            font-family: -apple-system, BlinkMacSystemFont, '' @ [39] @ asc ''Segoe UI'' @ [39] @ asc '', Roboto, sans-serif;\<newline>'' @
     asc ''            line-height: 1.6; \<newline>'' @
     asc ''            max-width: 800px; \<newline>'' @
     asc ''            margin: 0 auto; \<newline>'' @
     asc ''            padding: 20px;\<newline>'' @
     asc ''            color: #333;\<newline>'' @
     asc ''        }\<newline>'' @
     asc ''        h1 { \<newline>'' @
     asc ''            color: #667eea; \<newline>'' @
     asc ''            border-bottom: 2px solid #667eea;\<newline>'' @
     asc ''            padding-bottom: 10px;\<newline>'' @
     asc ''        }\<newline>'' @
     asc ''        h2 { color: #764ba2; }\<newline>'' @
     asc ''        p { margin: 1rem 0; }\<newline>'' @
     asc ''    </style>\<newline>'' @
     asc ''</head>\<newline>'' @
     asc ''<body>\<newline>'' @
     asc ''    <h1>PDF '' @ [35299, 26512, 32467, 26524] @ asc ''</h1>\<newline>'' @
     asc ''    <div>''"

text \<open>The HTML template of process_pdf_basic (both applications), behind the text.\<close>

definition html_tail_basic :: pystr where
  "html_tail_basic =
     asc ''</div>\<newline>'' @
     asc ''</body>\<newline>'' @
     asc ''</html>\<newline>''"

text \<open>The HTML template of process_pdf_basic in streamlit_app_vercel.py (139-155), before the text.\<close>

definition html_head_vercel :: pystr where
  "html_head_vercel =
     asc ''\<newline>'' @
     asc ''<!DOCTYPE html>\<newline>'' @
     asc ''<html>\<newline>'' @
     asc ''<head>\<newline>'' @
     asc ''    <meta charset=\"UTF-8\">\<newline>'' @
     asc ''    <title>PDF '' @ [35299, 26512, 32467, 26524] @ asc ''</title>\<newline>'' @
     asc ''    <style>\<newline>'' @
     asc ''        body { font-family: Arial, sans-serif; line-height: 1.6; max-width: 800px; margin: 0 auto; padding: 20px; }\<newline>'' @
     asc ''        h1 { color: #333; border-bottom: 2px solid #667eea; }\<newline>'' @
     asc ''    </style>\<newline>'' @
     asc ''</head>\<newline>'' @
     asc ''<body>\<newline>'' @
     asc ''    <h1>PDF '' @ [35299, 26512, 32467, 26524] @ asc ''</h1>\<newline>'' @
     asc ''    <div>''"

text \<open>Status text "chu shi hua chu li qi..." (initialising the processor; streamlit_app_vercel.py 98, mineru_processor.py 63).\<close>

definition msg_init :: pystr where
  "msg_init =
     [21021, 22987, 21270, 22788, 29702, 22120] @ asc ''...''"

text \<open>Status text of streamlit_app_vercel.py 104 (reading the PDF file).\<close>

definition msg_read_pdf :: pystr where
  "msg_read_pdf =
     [35835, 21462] @ asc '' PDF '' @ [25991, 20214] @ asc ''...''"

text \<open>Status text of streamlit_app_vercel.py 113, before the page count.\<close>

definition msg_process_pre :: pystr where
  "msg_process_pre =
     [22788, 29702] @ asc '' ''"

text \<open>Status text of call_mineru_api (streamlit_app_vercel.py 211), connecting to the API service.\<close>

definition msg_api_connect :: pystr where
  "msg_api_connect =
     [36830, 25509] @ asc '' MinerU API '' @ [26381, 21153] @ asc ''...''"

text \<open>Status text of call_mineru_api (streamlit_app_vercel.py 228), the API has finished.\<close>

definition msg_api_done :: pystr where
  "msg_api_done =
     asc ''API '' @ [22788, 29702, 23436, 25104, 65281]"

text \<open>Status text of mineru_processor.py 106 (configuring the engine).\<close>

definition msg_configure :: pystr where
  "msg_configure =
     [37197, 32622] @ asc '' MinerU '' @ [21442, 25968] @ asc ''...''"

text \<open>Status text of mineru_processor.py 115 (parsing starts).\<close>

definition msg_parse :: pystr where
  "msg_parse =
     [24320, 22987, 35299, 26512] @ asc '' PDF...''"

text \<open>The prefix _process_with_mineru puts before the message of an exception it re-raises (mineru_processor.py 144).\<close>

definition msg_mineru_failed_prefix :: pystr where
  "msg_mineru_failed_prefix =
     asc ''MinerU '' @ [22788, 29702, 22833, 36133] @ asc '': ''"

text \<open>The Markdown used when the engine left no Markdown file (mineru_processor.py 171).\<close>

definition md_placeholder :: pystr where
  "md_placeholder =
     asc ''# '' @ [22788, 29702, 32467, 26524] @ asc ''\<newline>'' @
     asc ''\<newline>'' @
     [26410, 33021, 29983, 25104] @ asc '' Markdown '' @ [20869, 23481, 12290]"

text \<open>The JSON text used when the engine left no JSON file (mineru_processor.py 180).\<close>

definition json_placeholder :: pystr where
  "json_placeholder =
     asc ''{\"message\": \"'' @ [26410, 33021, 29983, 25104] @ asc '' JSON '' @ [25968, 25454] @ asc ''\"}''"

text \<open>Status text of mineru_processor.py 209 (building the demonstration content).\<close>

definition msg_demo_content :: pystr where
  "msg_demo_content =
     [29983, 25104, 28436, 31034, 20869, 23481] @ asc ''...''"

text \<open>The demonstration Markdown (mineru_processor.py 212-254), before the name of the file.\<close>

definition demo_md_pre :: pystr where
  "demo_md_pre =
     asc ''# ''"

text \<open>The demonstration Markdown, behind the name of the file.\<close>

definition demo_md_post :: pystr where
  "demo_md_post =
     asc '' - '' @ [28436, 31034, 35299, 26512, 32467, 26524] @ asc ''\<newline>'' @
     asc ''\<newline>'' @
     asc ''## '' @ [128203] @ asc '' '' @ [25991, 26723, 27010, 36848] @ asc ''\<newline>'' @
     asc ''\<newline>'' @
     [36825, 26159, 19968, 20010, 28436, 31034, 30340] @ asc '' PDF '' @ [35299, 26512, 32467, 26524, 12290, 22312, 23454, 38469, 37096, 32626, 20013, 65292, 24403] @ asc '' MinerU '' @ [24341, 25806, 21487, 29992, 26102, 65292, 23558, 25552, 20379, 23436, 25972, 30340] @ asc '' AI '' @ [35299, 26512, 21151, 33021, 12290] @ asc ''\<newline>'' @
     asc ''\<newline>'' @
     asc ''## '' @ [127919] @ asc '' '' @ [20027, 35201, 21151, 33021] @ asc ''\<newline>'' @
     asc ''\<newline>'' @
     asc ''### '' @ [25991, 26412, 35782, 21035] @ asc ''\<newline>'' @
     asc ''- '' @ [39640, 31934, 24230] @ asc '' OCR '' @ [25991, 26412, 35782, 21035] @ asc ''\<newline>'' @
     asc ''- '' @ [25903, 25345, 20013, 33521, 25991, 28151, 21512, 25991, 26723] @ asc ''\<newline>'' @
     asc ''- '' @ [20445, 25345, 21407, 22987, 26684, 24335, 21644, 24067, 23616] @ asc ''\<newline>'' @
     asc ''\<newline>'' @
     asc ''### '' @ [34920, 26684, 35299, 26512] @ asc ''\<newline>'' @
     asc ''| '' @ [21151, 33021] @ asc '' | '' @ [29366, 24577] @ asc '' | '' @ [35828, 26126] @ asc '' |\<newline>'' @
     asc ''|------|------|------|\<newline>'' @
     asc ''| '' @ [34920, 26684, 35782, 21035] @ asc '' | '' @ [9989] @ asc '' '' @ [25903, 25345] @ asc '' | '' @ [33258, 21160, 35782, 21035, 34920, 26684, 32467, 26500] @ asc '' |\<newline>'' @
     asc ''| '' @ [21333, 20803, 26684, 21512, 24182] @ asc '' | '' @ [9989] @ asc '' '' @ [25903, 25345] @ asc '' | '' @ [22788, 29702, 22797, 26434, 34920, 26684, 24067, 23616] @ asc '' |\<newline>'' @
     asc ''| '' @ [25968, 25454, 25552, 21462] @ asc '' | '' @ [9989] @ asc '' '' @ [25903, 25345] @ asc '' | '' @ [32467, 26500, 21270, 25968, 25454, 36755, 20986] @ asc '' |\<newline>'' @
     asc ''\<newline>'' @
     asc ''### '' @ [20844, 24335, 35782, 21035] @ asc ''\<newline>'' @
     [25968, 23398, 20844, 24335, 31034, 20363, 65306] @ asc ''\<newline>'' @
     asc ''- '' @ [32447, 24615, 26041, 31243, 65306] @ asc ''$y = ax + b$\<newline>'' @
     asc ''- '' @ [20108, 27425, 26041, 31243, 65306] @ asc ''$ax^2 + bx + c = 0$\<newline>'' @
     asc ''- '' @ [31215, 20998, 20844, 24335, 65306] @ asc ''$'' @ [92] @ asc ''int_a^b f(x)dx$\<newline>'' @
     asc ''\<newline>'' @
     asc ''## '' @ [128202] @ asc '' '' @ [22788, 29702, 32479, 35745] @ asc ''\<newline>'' @
     asc ''\<newline>'' @
     asc ''- **'' @ [24635, 39029, 25968] @ asc ''**: '' @ [28436, 31034, 39029, 38754] @ asc ''\<newline>'' @
     asc ''- **'' @ [25991, 26412, 22359] @ asc ''**: '' @ [22810, 20010, 25991, 26412, 21306, 22495] @ asc ''\<newline>'' @
     asc ''- **'' @ [34920, 26684, 25968, 37327] @ asc ''**: 1'' @ [20010, 31034, 20363, 34920, 26684] @ asc ''\<newline>'' @
     asc ''- **'' @ [20844, 24335, 25968, 37327] @ asc ''**: 3'' @ [20010, 25968, 23398, 20844, 24335] @ asc ''\<newline>'' @
     asc ''\<newline>'' @
     asc ''## '' @ [128640] @ asc '' '' @ [23436, 25972, 21151, 33021] @ asc ''\<newline>'' @
     asc ''\<newline>'' @
     [35201, 20307, 39564, 23436, 25972, 30340] @ asc '' AI '' @ [35299, 26512, 21151, 33021, 65292, 35831, 65306] @ asc ''\<newline>'' @
     asc ''1. '' @ [23433, 35013] @ asc '' MinerU '' @ [24341, 25806] @ asc ''\<newline>'' @
     asc ''2. '' @ [37197, 32622, 30456, 20851, 20381, 36182] @ asc ''\<newline>'' @
     asc ''3. '' @ [37325, 26032, 22788, 29702, 25991, 26723] @ asc ''\<newline>'' @
     asc ''\<newline>'' @
     asc ''---\<newline>'' @
     asc ''*'' @ [36825, 26159, 28436, 31034, 27169, 24335, 30340, 36755, 20986, 32467, 26524] @ asc ''*\<newline>''"

text \<open>Status text of mineru_processor.py 318 (the demonstration result is finished).\<close>

definition msg_demo_done :: pystr where
  "msg_demo_done =
     [28436, 31034, 32467, 26524, 29983, 25104, 23436, 25104, 65281]"

text \<open>The prefix _create_demo_result puts before the message of an exception it re-raises (mineru_processor.py 342).\<close>

definition msg_demo_failed_prefix :: pystr where
  "msg_demo_failed_prefix =
     [29983, 25104, 28436, 31034, 32467, 26524, 22833, 36133] @ asc '': ''"

text \<open>The HTML template of _markdown_to_html with the markdown package (mineru_processor.py 351-395), before the body.\<close>

definition html_head_styled :: pystr where
  "html_head_styled =
     asc ''\<newline>'' @
     asc ''<!DOCTYPE html>\<newline>'' @
     asc ''<html>\<newline>'' @
     asc ''<head>\<newline>'' @
     asc ''    <meta charset=\"UTF-8\">\<newline>'' @
     asc ''    <title>PDF '' @ [35299, 26512, 32467, 26524] @ asc ''</title>\<newline>'' @
     asc ''    <style>\<newline>'' @
     asc ''        body {\<newline>'' @
     asc ''            font-family: -apple-system, BlinkMacSystemFont, '' @ [39] @ asc ''Segoe UI'' @ [39] @ asc '', Roboto, sans-serif;\<newline>'' @
     asc ''            line-height: 1.6;\<newline>'' @
     asc ''            max-width: 800px;\<newline>'' @
     asc ''            margin: 0 auto;\<newline>'' @
     asc ''            padding: 20px;\<newline>'' @
     asc ''            color: #333;\<newline>'' @
     asc ''        }\<newline>'' @
     asc ''        h1, h2, h3 { color: #667eea; }\<newline>'' @
     asc ''        table {\<newline>'' @
     asc ''            border-collapse: collapse;\<newline>'' @
     asc ''            width: 100%;\<newline>'' @
     asc ''            margin: 20px 0;\<newline>'' @
     asc ''        }\<newline>'' @
     asc ''        th, td {\<newline>'' @
     asc ''            border: 1px solid #ddd;\<newline>'' @
     asc ''            padding: 12px;\<newline>'' @
     asc ''            text-align: left;\<newline>'' @
     asc ''        }\<newline>'' @
     asc ''        th { background-color: #f8f9fa; }\<newline>'' @
     asc ''        code {\<newline>'' @
     asc ''            background-color: #f8f9fa;\<newline>'' @
     asc ''            padding: 2px 4px;\<newline>'' @
     asc ''            border-radius: 3px;\<newline>'' @
     asc ''        }\<newline>'' @
     asc ''        blockquote {\<newline>'' @
     asc ''            border-left: 4px solid #667eea;\<newline>'' @
     asc ''            margin: 0;\<newline>'' @
     asc ''            padding-left: 20px;\<newline>'' @
     asc ''            color: #666;\<newline>'' @
     asc ''        }\<newline>'' @
     asc ''    </style>\<newline>'' @
     asc ''</head>\<newline>'' @
     asc ''<body>\<newline>''"

text \<open>The HTML template of _markdown_to_html (both branches), behind the body.\<close>

definition html_tail_md :: pystr where
  "html_tail_md =
     asc ''\<newline>'' @
     asc ''</body>\<newline>'' @
     asc ''</html>\<newline>''"

text \<open>The HTML template of _markdown_to_html without the markdown package (mineru_processor.py 405-416), before the body.\<close>

definition html_head_plain :: pystr where
  "html_head_plain =
     asc ''\<newline>'' @
     asc ''<!DOCTYPE html>\<newline>'' @
     asc ''<html>\<newline>'' @
     asc ''<head>\<newline>'' @
     asc ''    <meta charset=\"UTF-8\">\<newline>'' @
     asc ''    <title>PDF '' @ [35299, 26512, 32467, 26524] @ asc ''</title>\<newline>'' @
     asc ''</head>\<newline>'' @
     asc ''<body>\<newline>''"

text \<open>Behind the name of the file in the heading of the demonstration JSON (mineru_processor.py 284).\<close>

definition demo_title_post :: pystr where
  "demo_title_post =
     asc '' - '' @ [28436, 31034, 35299, 26512, 32467, 26524]"

text \<open>The warning of cleanup_temp_dirs (app.py 224, streamlit_app_vercel.py 92), before the message of the exception.\<close>

definition msg_cleanup_warning :: pystr where
  "msg_cleanup_warning =
     [28165, 29702, 20020, 26102, 25991, 20214, 26102, 20986, 38169] @ asc '': ''"

text \<open>The warning of streamlit_app_vercel.py 406: the API service is not available, switching to the basic mode.\<close>

definition msg_api_fallback :: pystr where
  "msg_api_fallback =
     asc ''API '' @ [26381, 21153, 19981, 21487, 29992, 65292, 20999, 25442, 21040, 22522, 30784, 27169, 24335]"

section \<open>Data model\<close>

text \<open>The four counts of a result.\<close>

record stats =
  total_pages :: nat
  text_blocks :: nat
  tables :: nat
  formulas :: nat

text \<open>
  The dictionary a processing call returns. \<open>outputs\<close> keeps the keys in the order the
  source writes them; a key the dictionary does not have is \<open>None\<close> (\<open>[]\<close> for
  \<open>outputs\<close>). \<open>meth\<close> is the key \<open>method\<close>. Of the key \<open>traceback\<close> only its presence is
  kept, not the text of the trace.
\<close>

record result =
  success :: bool
  outputs :: "(string \<times> pystr) list"
  stats :: "stats option"
  meth :: "pystr option"
  error :: "pystr option"
  traceback :: bool
  file_name :: "pystr option"

definition failure :: "pystr \<Rightarrow> bool \<Rightarrow> result" where
  "failure msg tb =
     \<lparr>success = False, outputs = [], stats = None, meth = None, error = Some msg,
      traceback = tb, file_name = None\<rparr>"

text \<open>The configuration dictionary the user interface builds.\<close>

datatype cval = CStr pystr | CBool bool

type_synonym config = "(string \<times> cval) list"

text \<open>\<open>config.get(key, default)\<close>.\<close>

definition config_get :: "config \<Rightarrow> string \<Rightarrow> cval \<Rightarrow> cval" where
  "config_get config key dflt = (case map_of config key of None \<Rightarrow> dflt | Some v \<Rightarrow> v)"

text \<open>
  The file system as far as the applications write it: a path is a directory or a file
  with its bytes.
\<close>

datatype node = Dir | File "nat list"

type_synonym fs = "pystr \<Rightarrow> node option"

text \<open>
  A page of an opened PDF: \<open>load_page\<close> and \<open>get_text\<close> raise (\<open>Inl\<close>, the message of
  the exception) or give the text of the page.
\<close>

type_synonym page = "pystr + pystr"

text \<open>What the \<open>markdown\<close> package does with a text: it cannot be imported, it raises, or
  it renders HTML.\<close>

datatype md_outcome = MdImportError | MdRaised pystr | MdHtml pystr

text \<open>What \<open>requests.post\<close> does: it raises, or it gives a response with a status code
  and a body that \<open>response.json()\<close> fails to parse (\<open>Inl\<close>) or parses into a result.\<close>

datatype api_response = TransportError pystr | Response nat "pystr + result"

text \<open>
  Everything outside the repository that a run depends on: which optional modules can be
  imported, what PyMuPDF reads from a file, the layout engine, the \<open>markdown\<close> package,
  the remote service, the clock, and which operations of the operating system fail (with
  the message of the exception). \<open>fitz_open\<close>, \<open>getsize\<close> and \<open>api_post\<close> get what the file
  system holds at the path; \<open>api_post\<close> stands for opening the file and \<open>requests.post\<close>
  together. \<open>do_parse\<close> gives what \<open>os.walk\<close> lists in the output directory after the engine
  has run, each directory with its files; \<open>read_text\<close> and \<open>json_load\<close> read such a file.
\<close>

record world =
  mineru_module :: bool
  magic_pdf :: bool
  fitz_import :: "pystr option"
  fitz_open :: "node option \<Rightarrow> pystr + page list"
  getsize :: "node option \<Rightarrow> pystr + nat"
  markdown_lib :: "pystr \<Rightarrow> md_outcome"
  make_config_error :: "cval \<Rightarrow> pystr option"
  do_parse :: "pystr \<Rightarrow> pystr \<Rightarrow> cval \<Rightarrow> cval \<Rightarrow> pystr + (pystr \<times> pystr list) list"
  read_text :: "pystr \<Rightarrow> pystr + pystr"
  json_load :: "pystr \<Rightarrow> pystr + json"
  api_url :: "pystr option"
  api_post :: "pystr \<Rightarrow> node option \<Rightarrow> config \<Rightarrow> api_response"
  now_iso :: pystr
  now_strftime :: pystr
  time_repr :: pystr
  mkdtemp :: "pystr \<Rightarrow> pystr + pystr"
  makedirs_error :: "pystr \<Rightarrow> pystr option"
  write_error :: "pystr \<Rightarrow> pystr option"
  rmtree_error :: "pystr \<Rightarrow> pystr option"

section \<open>Effects\<close>

text \<open>
  What a run shows the user: a call of the progress callback, which is a fraction with
  a status text, or a warning (\<open>st.warning\<close>). The fractions are the decimal constants of
  the sources and what the page loop computes from them, modelled as exact rationals.
  An operation reads the file system and gives the events it showed, the file system it
  leaves, and the message of the exception it raised (\<open>Inl\<close>) or the value it returned.
\<close>

datatype event = Progress rat pystr | Warning pystr

type_synonym 'a io = "fs \<Rightarrow> event list \<times> fs \<times> (pystr + 'a)"

definition ret :: "'a \<Rightarrow> 'a io" where
  "ret x s = ([], s, Inr x)"

definition raise :: "pystr \<Rightarrow> 'a io" where
  "raise e s = ([], s, Inl e)"

text \<open>One operation after another: an exception of the first skips the second.\<close>

definition seq :: "'a io \<Rightarrow> ('a \<Rightarrow> 'b io) \<Rightarrow> 'b io" where
  "seq m f s =
     (case m s of
        (ps, s', Inl e) \<Rightarrow> (ps, s', Inl e)
      | (ps, s', Inr x) \<Rightarrow> (case f x s' of (ps', s'', r) \<Rightarrow> (ps @ ps', s'', r)))"

text \<open>\<open>try: m except Exception as e: h e\<close>.\<close>

definition try_except :: "'a io \<Rightarrow> (pystr \<Rightarrow> 'a io) \<Rightarrow> 'a io" where
  "try_except m h s =
     (case m s of
        (ps, s', Inl e) \<Rightarrow> (case h e s' of (ps', s'', r) \<Rightarrow> (ps @ ps', s'', r))
      | (ps, s', Inr x) \<Rightarrow> (ps, s', Inr x))"

text \<open>\<open>if progress_callback: progress_callback(p, msg)\<close>; \<open>cb\<close> says whether a callback
  was passed.\<close>

definition emit :: "bool \<Rightarrow> rat \<Rightarrow> pystr \<Rightarrow> event list" where
  "emit cb p msg = (if cb then [Progress p msg] else [])"

definition progress_callback :: "bool \<Rightarrow> rat \<Rightarrow> pystr \<Rightarrow> unit io" where
  "progress_callback cb p msg s = (emit cb p msg, s, Inr ())"

text \<open>A step that raises the given exception, if any.\<close>

definition may_raise :: "pystr option \<Rightarrow> unit io" where
  "may_raise e = (case e of None \<Rightarrow> ret () | Some msg \<Rightarrow> raise msg)"

definition of_sum :: "pystr + 'a \<Rightarrow> 'a io" where
  "of_sum r = (case r of Inl e \<Rightarrow> raise e | Inr x \<Rightarrow> ret x)"

definition warning :: "pystr \<Rightarrow> unit io" where
  "warning msg s = ([Warning msg], s, Inr ())"

text \<open>\<open>try: m finally: fin\<close>.\<close>

definition try_finally :: "'a io \<Rightarrow> unit io \<Rightarrow> 'a io" where
  "try_finally m fin s =
     (case m s of
        (ps, s', r) \<Rightarrow>
          (case fin s' of
             (ps', s'', Inl e) \<Rightarrow> (ps @ ps', s'', Inl e)
           | (ps', s'', Inr u) \<Rightarrow> (ps @ ps', s'', r)))"

text \<open>\<open>os.makedirs(path, exist_ok=True)\<close>, writing a file and \<open>os.path.exists\<close>. A file
  holds the bytes of an upload or the code points of a text.\<close>

definition makedirs :: "world \<Rightarrow> pystr \<Rightarrow> unit io" where
  "makedirs w path s =
     (case makedirs_error w path of
        Some e \<Rightarrow> ([], s, Inl e)
      | None \<Rightarrow> ([], (if s path = None then s(path \<mapsto> Dir) else s), Inr ()))"

definition write_file :: "world \<Rightarrow> pystr \<Rightarrow> nat list \<Rightarrow> unit io" where
  "write_file w path content s =
     (case write_error w path of
        Some e \<Rightarrow> ([], s, Inl e)
      | None \<Rightarrow> ([], s(path \<mapsto> File content), Inr ()))"

definition path_exists :: "fs \<Rightarrow> pystr \<Rightarrow> bool" where
  "path_exists s path = (s path \<noteq> None)"

text \<open>
  \<open>shutil.rmtree(path)\<close>: the path and everything below it is gone, or the call raises.
  What a call that raises has removed before is not modelled; the directory itself is
  still there, since it is removed last.
\<close>

definition below :: "pystr \<Rightarrow> pystr \<Rightarrow> bool" where
  "below d p = (p = d \<or> prefix (d @ [slash]) p)"

definition rmtree :: "world \<Rightarrow> pystr \<Rightarrow> unit io" where
  "rmtree w path s =
     (case rmtree_error w path of
        Some e \<Rightarrow> ([], s, Inl e)
      | None \<Rightarrow> ([], (\<lambda>p. if below path p then None else s p), Inr ()))"

section \<open>Format renderer (mineru_processor.py)\<close>

text \<open>
  \<open>MinerUProcessor._markdown_to_html\<close>. With the \<open>markdown\<close> package its HTML is put into
  the styled template. Without it the newlines become \<open><br>\<close> and the heading prefixes
  are replaced, as lines 400 to 403 do it.
\<close>

definition naive_html :: "pystr \<Rightarrow> pystr" where
  "naive_html markdown_content =
     (let html_content = py_replace [nl] (asc ''<br>'') markdown_content;
          html_content = py_replace [nl] (asc ''</h1>\<newline>'')
                           (py_replace (asc ''# '') (asc ''<h1>'') html_content);
          html_content = py_replace [nl] (asc ''</h2>\<newline>'')
                           (py_replace (asc ''## '') (asc ''<h2>'') html_content);
          html_content = py_replace [nl] (asc ''</h3>\<newline>'')
                           (py_replace (asc ''### '') (asc ''<h3>'') html_content)
      in html_content)"

definition markdown_to_html :: "world \<Rightarrow> pystr \<Rightarrow> pystr io" where
  "markdown_to_html w markdown_content =
     (case markdown_lib w markdown_content of
        MdHtml html \<Rightarrow> ret (html_head_styled @ html @ html_tail_md)
      | MdRaised e \<Rightarrow> raise e
      | MdImportError \<Rightarrow> ret (html_head_plain @ naive_html markdown_content @ html_tail_md))"

text \<open>\<open>outputs.get(key, '')\<close>.\<close>

definition output_get :: "(string \<times> pystr) list \<Rightarrow> string \<Rightarrow> pystr" where
  "output_get outs key = (case map_of outs key of None \<Rightarrow> [] | Some v \<Rightarrow> v)"

text \<open>\<open>MinerUProcessor._calculate_stats\<close>.\<close>

definition calculate_stats :: "(string \<times> pystr) list \<Rightarrow> stats" where
  "calculate_stats outs =
     (let markdown_content = output_get outs ''markdown_content'';
          paragraphs = filter (\<lambda>p. strip p \<noteq> []) (py_split [nl, nl] markdown_content);
          table_count = py_count [pipe] markdown_content;
          rules = py_count (asc ''|---'') markdown_content;
          formula_count = py_count (asc ''$'') markdown_content div 2
      in \<lparr>total_pages = 1,
          text_blocks = length paragraphs,
          tables = (if 0 < table_count then (if rules = 0 then 1 else rules) else 0),
          formulas = formula_count\<rparr>)"

section \<open>Processor (mineru_processor.py)\<close>

text \<open>
  The loop of \<open>_process_mineru_output\<close> over \<open>os.walk(output_dir)\<close>: the last file that
  ends in \<open>.md\<close> and the last one that ends in \<open>.json\<close>.
\<close>

definition scan_file ::
  "pystr \<Rightarrow> pystr option \<times> pystr option \<Rightarrow> pystr \<Rightarrow> pystr option \<times> pystr option" where
  "scan_file walk_dir found file =
     (if endswith file (asc ''.md'') then (Some (path_join walk_dir file), snd found)
      else if endswith file (asc ''.json'') then (fst found, Some (path_join walk_dir file))
      else found)"

definition scan_walk :: "(pystr \<times> pystr list) list \<Rightarrow> pystr option \<times> pystr option" where
  "scan_walk walk = foldl (\<lambda>found rf. foldl (scan_file (fst rf)) found (snd rf)) (None, None) walk"

text \<open>
  \<open>MinerUProcessor._process_mineru_output\<close>. A file that \<open>os.walk\<close> has just listed
  exists, so the test \<open>os.path.exists\<close> of lines 165 and 174 is left out.
\<close>

definition process_mineru_output ::
  "world \<Rightarrow> (pystr \<times> pystr list) list \<Rightarrow> pystr \<Rightarrow> pystr \<Rightarrow> (string \<times> pystr) list io" where
  "process_mineru_output w walk output_dir pdf_path =
     (let pdf_name = path_stem pdf_path;
          markdown_file = fst (scan_walk walk);
          json_file = snd (scan_walk walk)
      in
      seq (case markdown_file of
             Some f \<Rightarrow>
               seq (of_sum (read_text w f)) (\<lambda>markdown_content.
               ret [(''markdown_content'', markdown_content), (''markdown'', f)])
           | None \<Rightarrow> ret [(''markdown_content'', md_placeholder)]) (\<lambda>outs1.
      seq (case json_file of
             Some f \<Rightarrow>
               seq (of_sum (json_load w f)) (\<lambda>json_data.
               ret [(''json_content'', json_dumps json_data), (''json'', f)])
           | None \<Rightarrow> ret [(''json_content'', json_placeholder)]) (\<lambda>outs2.
      seq (markdown_to_html w (output_get (outs1 @ outs2) ''markdown_content'')) (\<lambda>html_content.
      let html_file = path_join output_dir (pdf_name @ asc ''.html'') in
      seq (write_file w html_file html_content) (\<lambda>u.
      let text_content = markdown_to_text (output_get (outs1 @ outs2) ''markdown_content'');
          text_file = path_join output_dir (pdf_name @ asc ''.txt'')
      in
      seq (write_file w text_file text_content) (\<lambda>u.
      ret (outs1 @ outs2 @
           [(''html_content'', html_content), (''html'', html_file),
            (''text_content'', text_content), (''text'', text_file)])))))))"

text \<open>
  \<open>MinerUProcessor._process_with_mineru\<close>. Its two imports have succeeded before, in
  \<open>setup_mineru\<close>, when this branch is taken. \<open>formula_enable\<close> and \<open>table_enable\<close> are
  passed in and not used.
\<close>

definition process_with_mineru ::
  "world \<Rightarrow> pystr \<Rightarrow> pystr \<Rightarrow> cval \<Rightarrow> cval \<Rightarrow> cval \<Rightarrow> cval \<Rightarrow> bool \<Rightarrow> result io" where
  "process_with_mineru w pdf_path output_dir language parse_method formula_enable table_enable cb =
     try_except
       (seq (progress_callback cb (2 / 10) msg_configure) (\<lambda>u.
        let lang = (if language \<noteq> CStr (asc ''auto'') then language else CStr (asc ''ch'')) in
        seq (may_raise (make_config_error w lang)) (\<lambda>u.
        seq (progress_callback cb (3 / 10) msg_parse) (\<lambda>u.
        seq (of_sum (do_parse w pdf_path output_dir parse_method lang)) (\<lambda>walk.
        seq (progress_callback cb (8 / 10) msg_output) (\<lambda>u.
        seq (process_mineru_output w walk output_dir pdf_path) (\<lambda>outs.
        seq (progress_callback cb 1 msg_done) (\<lambda>u.
        ret \<lparr>success = True, outputs = outs, stats = Some (calculate_stats outs),
             meth = Some (asc ''mineru''), error = None, traceback = False,
             file_name = None\<rparr>))))))))
       (\<lambda>e. raise (msg_mineru_failed_prefix @ e))"

text \<open>The JSON document of the demonstration result (lines 277 to 311).\<close>

definition demo_json :: "world \<Rightarrow> pystr \<Rightarrow> json" where
  "demo_json w pdf_name =
     JObj [
       (asc ''document'', JObj [
          (asc ''title'', JStr pdf_name),
          (asc ''type'', JStr (asc ''demo'')),
          (asc ''pages'', JInt 1),
          (asc ''content'', JObj [
             (asc ''text_blocks'', JArr [
                JObj [(asc ''type'', JStr (asc ''heading'')),
                      (asc ''content'', JStr (pdf_name @ demo_title_post))],
                JObj [(asc ''type'', JStr (asc ''paragraph'')),
                      (asc ''content'', JStr ([36825, 26159, 19968, 20010, 28436, 31034, 30340] @
                         asc '' PDF '' @ [35299, 26512, 32467, 26524, 12290]))],
                JObj [(asc ''type'', JStr (asc ''table'')),
                      (asc ''content'', JStr [31034, 20363, 34920, 26684, 25968, 25454])],
                JObj [(asc ''type'', JStr (asc ''formula'')),
                      (asc ''content'', JStr [25968, 23398, 20844, 24335, 31034, 20363])]]),
             (asc ''tables'', JArr [
                JObj [(asc ''headers'',
                         JArr [JStr [21151, 33021], JStr [29366, 24577], JStr [35828, 26126]]),
                      (asc ''rows'', JArr [
                         JArr [JStr [34920, 26684, 35782, 21035],
                               JStr ([9989] @ asc '' '' @ [25903, 25345]),
                               JStr [33258, 21160, 35782, 21035, 34920, 26684, 32467, 26500]],
                         JArr [JStr [21333, 20803, 26684, 21512, 24182],
                               JStr ([9989] @ asc '' '' @ [25903, 25345]),
                               JStr [22788, 29702, 22797, 26434, 34920, 26684, 24067, 23616]],
                         JArr [JStr [25968, 25454, 25552, 21462],
                               JStr ([9989] @ asc '' '' @ [25903, 25345]),
                               JStr [32467, 26500, 21270, 25968, 25454, 36755, 20986]]])]]),
             (asc ''formulas'', JArr [
                JStr (asc ''y = ax + b''),
                JStr (asc ''ax^2 + bx + c = 0''),
                JStr ([8747] @ asc ''f(x)dx'')])])]),
       (asc ''metadata'', JObj [
          (asc ''processed_at'', JStr (now_strftime w)),
          (asc ''method'', JStr (asc ''demo'')),
          (asc ''version'', JStr (asc ''1.0.0''))])]"

text \<open>\<open>MinerUProcessor._create_demo_result\<close>.\<close>

definition create_demo_result :: "world \<Rightarrow> pystr \<Rightarrow> pystr \<Rightarrow> bool \<Rightarrow> result io" where
  "create_demo_result w pdf_path output_dir cb =
     try_except
       (let pdf_name = path_stem pdf_path in
        seq (progress_callback cb (3 / 10) msg_demo_content) (\<lambda>u.
        let markdown_content = demo_md_pre @ pdf_name @ demo_md_post in
        seq (progress_callback cb (6 / 10) msg_output) (\<lambda>u.
        let markdown_file = path_join output_dir (pdf_name @ asc ''.md'') in
        seq (write_file w markdown_file markdown_content) (\<lambda>u.
        seq (markdown_to_html w markdown_content) (\<lambda>html_content.
        let html_file = path_join output_dir (pdf_name @ asc ''.html'') in
        seq (write_file w html_file html_content) (\<lambda>u.
        let text_content = markdown_to_text markdown_content;
            text_file = path_join output_dir (pdf_name @ asc ''.txt'')
        in
        seq (write_file w text_file text_content) (\<lambda>u.
        let json_data = demo_json w pdf_name;
            json_file = path_join output_dir (pdf_name @ asc ''.json'')
        in
        seq (write_file w json_file (json_dumps json_data)) (\<lambda>u.
        seq (progress_callback cb 1 msg_demo_done) (\<lambda>u.
        ret \<lparr>success = True,
             outputs =
               [(''markdown_content'', markdown_content),
                (''html_content'', html_content),
                (''text_content'', text_content),
                (''json_content'', json_dumps json_data),
                (''markdown'', markdown_file),
                (''html'', html_file),
                (''text'', text_file),
                (''json'', json_file)],
             stats = Some \<lparr>total_pages = 1, text_blocks = 4, tables = 1, formulas = 3\<rparr>,
             meth = Some (asc ''demo''), error = None, traceback = False,
             file_name = None\<rparr>)))))))))
       (\<lambda>e. raise (msg_demo_failed_prefix @ e))"

text \<open>
  \<open>MinerUProcessor.process_pdf\<close>; \<open>magic_pdf\<close> is the flag \<open>mineru_available\<close> that
  \<open>setup_mineru\<close> has set.
\<close>

definition process_pdf ::
  "world \<Rightarrow> pystr \<Rightarrow> pystr \<Rightarrow> cval \<Rightarrow> cval \<Rightarrow> cval \<Rightarrow> cval \<Rightarrow> bool \<Rightarrow> result io" where
  "process_pdf w pdf_path output_dir language parse_method formula_enable table_enable cb =
     try_except
       (seq (progress_callback cb (1 / 10) msg_init) (\<lambda>u.
        seq (makedirs w output_dir) (\<lambda>u.
        if \<not> magic_pdf w then create_demo_result w pdf_path output_dir cb
        else process_with_mineru w pdf_path output_dir language parse_method
               formula_enable table_enable cb)))
       (\<lambda>e.
          seq (progress_callback cb 1 (msg_failed_prefix @ e)) (\<lambda>u.
          ret (failure (msg_error_prefix @ e) True)))"

section \<open>Basic extraction\<close>

text \<open>
  The loop over the pages, which \<open>process_pdf_basic\<close> has in both applications; they
  differ in the two constants of the fraction, \<open>base\<close> and \<open>width\<close>. \<open>pages\<close> are the pages
  from \<open>page_num\<close> on; \<open>markdown_content\<close> and \<open>text_content\<close> are the two lists the loop
  appends to. A page whose text is only whitespace is left out of both.
\<close>

fun page_loop ::
  "bool \<Rightarrow> rat \<Rightarrow> rat \<Rightarrow> nat \<Rightarrow> nat \<Rightarrow> page list \<Rightarrow> pystr list \<Rightarrow> pystr list \<Rightarrow>
   event list \<times> (pystr + pystr list \<times> pystr list)" where
  "page_loop cb base width n_pages page_num [] markdown_content text_content =
     ([], Inr (markdown_content, text_content))"
| "page_loop cb base width n_pages page_num (page # pages) markdown_content text_content =
     (case page of
        Inl e \<Rightarrow> ([], Inl e)
      | Inr page_text \<Rightarrow>
          (let keep = (strip page_text \<noteq> []);
               markdown_content' =
                 (if keep
                  then markdown_content @
                       [page_heading @ str_nat (page_num + 1) @ [nl, nl] @ page_text @ [nl, nl]]
                  else markdown_content);
               text_content' = (if keep then text_content @ [page_text] else text_content);
               here = emit cb (base + of_nat (page_num + 1) / of_nat n_pages * width)
                        (msg_page_pre @ str_nat (page_num + 1) @ asc ''/'' @
                         str_nat n_pages @ msg_page_post);
               rest = page_loop cb base width n_pages (page_num + 1) pages
                        markdown_content' text_content'
           in (here @ fst rest, snd rest)))"

definition pure_io :: "event list \<times> (pystr + 'a) \<Rightarrow> 'a io" where
  "pure_io r s = (fst r, s, snd r)"

text \<open>\<open>fitz.open(pdf_path)\<close> and \<open>os.path.getsize(pdf_path)\<close>.\<close>

definition open_pdf :: "world \<Rightarrow> pystr \<Rightarrow> page list io" where
  "open_pdf w pdf_path s = of_sum (fitz_open w (s pdf_path)) s"

definition path_getsize :: "world \<Rightarrow> pystr \<Rightarrow> nat io" where
  "path_getsize w pdf_path s = of_sum (getsize w (s pdf_path)) s"

text \<open>The HTML and the four counts of the basic branch.\<close>

definition basic_html :: "pystr \<Rightarrow> pystr \<Rightarrow> pystr" where
  "basic_html head full_text = head @ py_replace [nl] (asc ''<br>'') full_text @ html_tail_basic"

definition basic_stats :: "nat \<Rightarrow> pystr list \<Rightarrow> stats" where
  "basic_stats n_pages text_content =
     \<lparr>total_pages = n_pages,
      text_blocks = length (filter (\<lambda>p. strip p \<noteq> []) text_content),
      tables = 0,
      formulas = 0\<rparr>"

section \<open>The application app.py\<close>

text \<open>\<open>process_pdf_basic\<close> of app.py.\<close>

definition process_pdf_basic :: "world \<Rightarrow> pystr \<Rightarrow> pystr \<Rightarrow> config \<Rightarrow> bool \<Rightarrow> result io" where
  "process_pdf_basic w pdf_path output_dir config cb =
     try_except
       (seq (may_raise (fitz_import w)) (\<lambda>u.
        seq (progress_callback cb (1 / 10) msg_init_basic) (\<lambda>u.
        seq (open_pdf w pdf_path) (\<lambda>doc.
        let n_pages = length doc in
        seq (progress_callback cb (2 / 10) (msg_start_pre @ str_nat n_pages @ msg_pages_post)) (\<lambda>u.
        seq (pure_io (page_loop cb (2 / 10) (6 / 10) n_pages 0 doc [] [])) (\<lambda>lists.
        seq (progress_callback cb (9 / 10) msg_output) (\<lambda>u.
        let full_markdown = py_join [] (fst lists);
            full_text = py_join [nl, nl] (snd lists);
            html_content = basic_html html_head_app full_text
        in
        seq (path_getsize w pdf_path) (\<lambda>file_size.
        let json_data =
              JObj [
                (asc ''document'', JObj [
                   (asc ''title'', JStr (path_stem pdf_path)),
                   (asc ''pages'', JInt n_pages),
                   (asc ''processed_at'', JStr (now_iso w)),
                   (asc ''method'', JStr (asc ''basic_extraction'')),
                   (asc ''processor'', JStr (asc ''PyMuPDF''))]),
                (asc ''content'', JObj [
                   (asc ''text'', JStr full_text),
                   (asc ''markdown'', JStr full_markdown)]),
                (asc ''metadata'', JObj [
                   (asc ''file_size'', JInt file_size),
                   (asc ''processing_time'', JRaw (time_repr w))])]
        in
        seq (progress_callback cb 1 msg_done) (\<lambda>u.
        ret \<lparr>success = True,
             outputs =
               [(''markdown_content'', full_markdown),
                (''html_content'', html_content),
                (''text_content'', full_text),
                (''json_content'', json_dumps json_data)],
             stats = Some (basic_stats n_pages (snd lists)),
             meth = Some (asc ''basic''), error = None, traceback = False,
             file_name = None\<rparr>)))))))))
       (\<lambda>e. raise (msg_basic_failed_prefix @ e))"

text \<open>\<open>process_pdf_file\<close>; \<open>mineru_module\<close> is the flag \<open>MINERU_AVAILABLE\<close>.\<close>

definition process_pdf_file :: "world \<Rightarrow> pystr \<Rightarrow> pystr \<Rightarrow> config \<Rightarrow> bool \<Rightarrow> result io" where
  "process_pdf_file w pdf_path output_dir config cb =
     try_except
       (if mineru_module w then
          process_pdf w pdf_path output_dir
            (config_get config ''language'' (CStr (asc ''ch'')))
            (config_get config ''parse_method'' (CStr (asc ''auto'')))
            (config_get config ''formula_enable'' (CBool True))
            (config_get config ''table_enable'' (CBool True))
            cb
        else process_pdf_basic w pdf_path output_dir config cb)
       (\<lambda>e.
          seq (progress_callback cb 1 (msg_failed_prefix @ e)) (\<lambda>u.
          ret (failure (msg_error_prefix @ e) True)))"

text \<open>\<open>create_temp_dirs\<close> and \<open>cleanup_temp_dirs\<close>, the same in both applications.\<close>

definition create_temp_dirs :: "world \<Rightarrow> (pystr \<times> pystr) io" where
  "create_temp_dirs w =
     seq (\<lambda>s. case mkdtemp w (asc ''mineru_'') of
                 Inl e \<Rightarrow> ([], s, Inl e)
               | Inr d \<Rightarrow> ([], s(d \<mapsto> Dir), Inr d)) (\<lambda>temp_dir.
     let input_dir = path_join temp_dir (asc ''input'');
         output_dir = path_join temp_dir (asc ''output'')
     in
     seq (makedirs w input_dir) (\<lambda>u.
     seq (makedirs w output_dir) (\<lambda>u.
     ret (input_dir, output_dir))))"

definition cleanup_temp_dirs :: "world \<Rightarrow> pystr \<Rightarrow> unit io" where
  "cleanup_temp_dirs w temp_dir =
     try_except
       (\<lambda>s. if path_exists s temp_dir then rmtree w temp_dir s else ret () s)
       (\<lambda>e. warning (msg_cleanup_warning @ e))"

text \<open>An uploaded file: its name and its bytes.\<close>

record uploaded_file =
  up_name :: pystr
  up_data :: "nat list"

text \<open>The loop over the uploaded files: a result for each, in the order of the upload.\<close>

fun process_files :: "(uploaded_file \<Rightarrow> result io) \<Rightarrow> uploaded_file list \<Rightarrow> result list io" where
  "process_files step [] = ret []"
| "process_files step (f # fs) =
     seq (step f) (\<lambda>r. seq (process_files step fs) (\<lambda>rs. ret (r # rs)))"

text \<open>The body of the loop in \<open>main\<close> of app.py (lines 559 to 583).\<close>

definition process_uploaded ::
  "world \<Rightarrow> config \<Rightarrow> pystr \<Rightarrow> pystr \<Rightarrow> uploaded_file \<Rightarrow> result io" where
  "process_uploaded w config input_dir output_dir f =
     (let pdf_path = path_join input_dir (up_name f) in
      seq (write_file w pdf_path (up_data f)) (\<lambda>u.
      let file_output_dir = path_join output_dir (path_stem (up_name f)) in
      seq (makedirs w file_output_dir) (\<lambda>u.
      seq (process_pdf_file w pdf_path file_output_dir config True) (\<lambda>r.
      ret (r\<lparr>file_name := Some (up_name f)\<rparr>)))))"

text \<open>
  \<open>main\<close> of app.py from the click on the button (lines 545 to 699): the workspace, the
  loop, and the cleanup in the \<open>finally\<close> block. How the results are shown is left out.
\<close>

definition main :: "world \<Rightarrow> config \<Rightarrow> uploaded_file list \<Rightarrow> result list io" where
  "main w config uploaded_files =
     seq (create_temp_dirs w) (\<lambda>dirs.
     let temp_base_dir = dirname (fst dirs) in
     try_finally
       (process_files (process_uploaded w config (fst dirs) (snd dirs)) uploaded_files)
       (cleanup_temp_dirs w temp_base_dir))"

section \<open>The application streamlit_app_vercel.py\<close>

text \<open>\<open>process_pdf_basic\<close> of streamlit_app_vercel.py.\<close>

definition process_pdf_basic_vercel ::
  "world \<Rightarrow> pystr \<Rightarrow> pystr \<Rightarrow> config \<Rightarrow> bool \<Rightarrow> result io" where
  "process_pdf_basic_vercel w pdf_path output_dir config cb =
     try_except
       (seq (progress_callback cb (1 / 10) msg_init) (\<lambda>u.
        seq (may_raise (fitz_import w)) (\<lambda>u.
        seq (progress_callback cb (3 / 10) msg_read_pdf) (\<lambda>u.
        seq (open_pdf w pdf_path) (\<lambda>doc.
        let n_pages = length doc in
        seq (progress_callback cb (4 / 10) (msg_process_pre @ str_nat n_pages @ msg_pages_post)) (\<lambda>u.
        seq (pure_io (page_loop cb (4 / 10) (4 / 10) n_pages 0 doc [] [])) (\<lambda>lists.
        seq (progress_callback cb (9 / 10) msg_output) (\<lambda>u.
        let full_markdown = py_join [] (fst lists);
            full_text = py_join [nl, nl] (snd lists);
            html_content = basic_html html_head_vercel full_text;
            json_data =
              JObj [
                (asc ''document'', JObj [
                   (asc ''title'', JStr (path_stem pdf_path)),
                   (asc ''pages'', JInt n_pages),
                   (asc ''processed_at'', JStr (now_iso w)),
                   (asc ''method'', JStr (asc ''basic_extraction''))]),
                (asc ''content'', JObj [
                   (asc ''text'', JStr full_text),
                   (asc ''markdown'', JStr full_markdown)])]
        in
        seq (progress_callback cb 1 msg_done) (\<lambda>u.
        ret \<lparr>success = True,
             outputs =
               [(''markdown_content'', full_markdown),
                (''html_content'', html_content),
                (''text_content'', full_text),
                (''json_content'', json_dumps json_data)],
             stats = Some (basic_stats n_pages (snd lists)),
             meth = Some (asc ''basic''), error = None, traceback = False,
             file_name = None\<rparr>)))))))))
       (\<lambda>e.
          seq (progress_callback cb 1 (msg_failed_prefix @ e)) (\<lambda>u.
          ret (failure (msg_error_prefix @ e) False)))"

text \<open>
  \<open>call_mineru_api\<close>: \<open>None\<close> when no address is configured, when the request raises and
  when the status is not 200; the JSON body of the response otherwise.
\<close>

definition call_mineru_api :: "world \<Rightarrow> pystr \<Rightarrow> config \<Rightarrow> bool \<Rightarrow> result option io" where
  "call_mineru_api w pdf_path config cb =
     try_except
       (case api_url w of
          None \<Rightarrow> ret None
        | Some url \<Rightarrow>
            if url = [] then ret None
            else
              seq (progress_callback cb (2 / 10) msg_api_connect) (\<lambda>u.
              seq (\<lambda>s. (case api_post w (url @ asc ''/process'') (s pdf_path) config of
                          TransportError e \<Rightarrow> raise e
                        | Response status_code body \<Rightarrow> ret (status_code, body)) s) (\<lambda>response.
              if fst response = 200 then
                seq (of_sum (snd response)) (\<lambda>r.
                seq (progress_callback cb 1 msg_api_done) (\<lambda>u.
                ret (Some r)))
              else ret None)))
       (\<lambda>e. ret None)"

text \<open>The body of the loop in \<open>main\<close> of streamlit_app_vercel.py (lines 389 to 412).\<close>

definition process_uploaded_vercel ::
  "world \<Rightarrow> pystr \<Rightarrow> config \<Rightarrow> pystr \<Rightarrow> pystr \<Rightarrow> uploaded_file \<Rightarrow> result io" where
  "process_uploaded_vercel w processing_mode config input_dir output_dir f =
     (let pdf_path = path_join input_dir (up_name f) in
      seq (write_file w pdf_path (up_data f)) (\<lambda>u.
      seq (if processing_mode = asc ''api'' then
             seq (call_mineru_api w pdf_path config True) (\<lambda>r.
             case r of
               None \<Rightarrow>
                 seq (warning msg_api_fallback) (\<lambda>u.
                 process_pdf_basic_vercel w pdf_path output_dir config True)
             | Some res \<Rightarrow> ret res)
           else process_pdf_basic_vercel w pdf_path output_dir config True) (\<lambda>r.
      ret (r\<lparr>file_name := Some (up_name f)\<rparr>))))"

text \<open>\<open>main\<close> of streamlit_app_vercel.py from the click on the button (lines 369 to 522).\<close>

definition main_vercel :: "world \<Rightarrow> pystr \<Rightarrow> pystr \<Rightarrow> uploaded_file list \<Rightarrow> result list io" where
  "main_vercel w language processing_mode uploaded_files =
     (let config = [(''language'', CStr language), (''processing_mode'', CStr processing_mode)] in
      seq (create_temp_dirs w) (\<lambda>dirs.
      let temp_base_dir = dirname (fst dirs) in
      try_finally
        (process_files
           (process_uploaded_vercel w processing_mode config (fst dirs) (snd dirs))
           uploaded_files)
        (cleanup_temp_dirs w temp_base_dir)))"

section \<open>Notions the statements use\<close>

text \<open>
  The Markdown entries the page loop appends for the texts of the pages from number
  \<open>k + 1\<close> on: one for each page whose text is not only whitespace.
\<close>

fun page_md :: "nat \<Rightarrow> pystr list \<Rightarrow> pystr list" where
  "page_md k [] = []"
| "page_md k (t # ts) =
     (if strip t \<noteq> [] then [page_heading @ str_nat (k + 1) @ [nl, nl] @ t @ [nl, nl]] else []) @
     page_md (k + 1) ts"

text \<open>The texts that are not only whitespace.\<close>

definition nonblank :: "pystr list \<Rightarrow> pystr list" where
  "nonblank texts = filter (\<lambda>t. strip t \<noteq> []) texts"

text \<open>
  A small world to run the definitions in. Its PyMuPDF reads a file of \<open>n\<close> bytes as a
  PDF of \<open>n\<close> pages, the text of a page being the one character with the code of its
  byte, and cannot open an empty or a missing file. No optional module is installed, no
  address of the remote service is configured, and no operation of the operating system
  fails. \<open>with_api\<close> configures a remote service that answers with the given response.
\<close>

definition toy_world :: world where
  "toy_world =
     \<lparr>mineru_module = False,
      magic_pdf = False,
      fitz_import = None,
      fitz_open = (\<lambda>n. case n of
                         Some (File b) \<Rightarrow>
                           if b = [] then Inl (asc ''cannot open broken document'')
                           else Inr (map (\<lambda>c. Inr [c]) b)
                       | Some Dir \<Rightarrow> Inl (asc ''is a directory'')
                       | None \<Rightarrow> Inl (asc ''no such file'')),
      getsize = (\<lambda>n. case n of
                       Some (File b) \<Rightarrow> Inr (length b)
                     | Some Dir \<Rightarrow> Inr 4096
                     | None \<Rightarrow> Inl (asc ''no such file'')),
      markdown_lib = (\<lambda>t. MdImportError),
      make_config_error = (\<lambda>l. None),
      do_parse = (\<lambda>p d m l. Inr []),
      read_text = (\<lambda>p. Inl (asc ''no such file'')),
      json_load = (\<lambda>p. Inl (asc ''no such file'')),
      api_url = None,
      api_post = (\<lambda>u n c. TransportError (asc ''connection refused'')),
      now_iso = asc ''2024-01-01T00:00:00'',
      now_strftime = asc ''2024-01-01 00:00:00'',
      time_repr = asc ''1704067200.0'',
      mkdtemp = (\<lambda>p. Inr (asc ''/tmp/'' @ p @ asc ''x'')),
      makedirs_error = (\<lambda>p. None),
      write_error = (\<lambda>p. None),
      rmtree_error = (\<lambda>p. None)\<rparr>"

definition with_api :: "api_response \<Rightarrow> world" where
  "with_api resp = toy_world\<lparr>api_url := Some (asc ''http://api''), api_post := (\<lambda>u n c. resp)\<rparr>"

text \<open>A file system that holds one file.\<close>

definition one_file :: "pystr \<Rightarrow> nat list \<Rightarrow> fs" where
  "one_file path bytes = (\<lambda>p. if p = path then Some (File bytes) else None)"

text \<open>
  The result a run returned, if it returned one; whether it returned a result with
  \<open>success\<close> true; and the value of a key of its \<open>outputs\<close>.
\<close>

definition the_result :: "event list \<times> fs \<times> (pystr + 'a) \<Rightarrow> 'a option" where
  "the_result x = (case snd (snd x) of Inl e \<Rightarrow> None | Inr r \<Rightarrow> Some r)"

definition succeeded :: "event list \<times> fs \<times> (pystr + result) \<Rightarrow> bool" where
  "succeeded x = (case the_result x of None \<Rightarrow> False | Some r \<Rightarrow> success r)"

definition output_of :: "string \<Rightarrow> event list \<times> fs \<times> (pystr + result) \<Rightarrow> pystr option" where
  "output_of key x = (case the_result x of None \<Rightarrow> None | Some r \<Rightarrow> map_of (outputs r) key)"

text \<open>An HTML text with an opening \<open><html>\<close> and, somewhere behind it, a closing
  \<open></html>\<close>.\<close>

definition has_html_wrapper :: "pystr \<Rightarrow> bool" where
  "has_html_wrapper h = (\<exists>a b c. h = a @ asc ''<html>'' @ b @ asc ''</html>'' @ c)"

text \<open>The fractions and the status texts of the calls of the progress callback among the
  events of a run, in their order.\<close>

fun fractions :: "event list \<Rightarrow> rat list" where
  "fractions [] = []"
| "fractions (Progress p m # es) = p # fractions es"
| "fractions (Warning m # es) = fractions es"

fun statuses :: "event list \<Rightarrow> pystr list" where
  "statuses [] = []"
| "statuses (Progress p m # es) = m # statuses es"
| "statuses (Warning m # es) = statuses es"

text \<open>
  Events whose fractions never decrease and lie between \<open>lo\<close> and \<open>hi\<close>, each with a
  status text that is not empty; an operation all of whose runs show such events; and an
  operation that shows nothing.
\<close>

definition steady :: "rat \<Rightarrow> rat \<Rightarrow> event list \<Rightarrow> bool" where
  "steady lo hi tr =
     (sorted (fractions tr) \<and> (\<forall>q\<in>set (fractions tr). lo \<le> q \<and> q \<le> hi) \<and>
      [] \<notin> set (statuses tr))"



text \<open>
  Events that end with the call of the progress callback a failure makes, the fraction 1
  with the text of the failure, for a result that carries the same message as its error.
\<close>

definition ends_failed :: "event list \<Rightarrow> result \<Rightarrow> bool" where
  "ends_failed tr r =
     (\<exists>e. tr \<noteq> [] \<and> last tr = Progress 1 (msg_failed_prefix @ e) \<and>
          error r = Some (msg_error_prefix @ e))"

text \<open>An operation that removes no path: what exists before it exists after it.\<close>

definition grows :: "'a io \<Rightarrow> bool" where
  "grows m = (\<forall>s p. path_exists s p \<longrightarrow> path_exists (fst (snd (m s))) p)"

text \<open>The small world with a \<open>shutil.rmtree\<close> that always raises.\<close>

definition busy_world :: world where
  "busy_world = toy_world\<lparr>rmtree_error := (\<lambda>p. Some (asc ''device busy''))\<rparr>"

text \<open>
  A batch of uploads. PyMuPDF reads an uploaded file when it opens its bytes and loads the
  text of every page; it does not when \<open>fitz.open\<close> raises or a page raises. \<open>in_path\<close> and
  \<open>out_path\<close> are the path the loop of \<open>main\<close> saves an upload under and the output directory it
  makes for it, in the workspace \<open>d\<close>; \<open>lang_of\<close> is the language \<open>_process_with_mineru\<close> passes
  on. \<open>engine_parse\<close> is what the layout engine does with the saved upload: it fails when it
  raises, and it works when it returns and the Markdown and JSON files it left, if any, can
  be read. The remote service is down for an upload when no address is configured or the
  request raises, is answered with a status other than 200, or with a body that is not JSON.
  \<open>one_failure k\<close> says that the batch returned one result per file, in order and under the
  file's name, that all of them but one have \<open>success = True\<close>, and that the one at index \<open>k\<close>
  has \<open>success = False\<close> and an error message.
\<close>

definition readable :: "world \<Rightarrow> uploaded_file \<Rightarrow> bool" where
  "readable w f =
     (case fitz_open w (Some (File (up_data f))) of
        Inl e \<Rightarrow> False
      | Inr pages \<Rightarrow> list_all (\<lambda>page. \<not> isl page) pages)"

definition in_path :: "pystr \<Rightarrow> uploaded_file \<Rightarrow> pystr" where
  "in_path d f = path_join (path_join d (asc ''input'')) (up_name f)"

definition out_path :: "pystr \<Rightarrow> uploaded_file \<Rightarrow> pystr" where
  "out_path d f = path_join (path_join d (asc ''output'')) (path_stem (up_name f))"

definition lang_of :: "config \<Rightarrow> cval" where
  "lang_of config =
     (let language = config_get config ''language'' (CStr (asc ''ch''))
      in if language \<noteq> CStr (asc ''auto'') then language else CStr (asc ''ch''))"

definition engine_parse ::
  "world \<Rightarrow> config \<Rightarrow> pystr \<Rightarrow> uploaded_file \<Rightarrow> pystr + (pystr \<times> pystr list) list" where
  "engine_parse w config d f =
     do_parse w (in_path d f) (out_path d f)
       (config_get config ''parse_method'' (CStr (asc ''auto''))) (lang_of config)"

definition engine_fails :: "world \<Rightarrow> config \<Rightarrow> pystr \<Rightarrow> uploaded_file \<Rightarrow> bool" where
  "engine_fails w config d f = isl (engine_parse w config d f)"

definition engine_works :: "world \<Rightarrow> config \<Rightarrow> pystr \<Rightarrow> uploaded_file \<Rightarrow> bool" where
  "engine_works w config d f =
     (case engine_parse w config d f of
        Inl e \<Rightarrow> False
      | Inr walk \<Rightarrow>
          (case fst (scan_walk walk) of None \<Rightarrow> True | Some p \<Rightarrow> \<not> isl (read_text w p)) \<and>
          (case snd (scan_walk walk) of None \<Rightarrow> True | Some p \<Rightarrow> \<not> isl (json_load w p)))"

definition api_down :: "world \<Rightarrow> config \<Rightarrow> uploaded_file \<Rightarrow> bool" where
  "api_down w config f =
     (case api_url w of
        None \<Rightarrow> True
      | Some url \<Rightarrow>
          url = [] \<or>
          (case api_post w (url @ asc ''/process'') (Some (File (up_data f))) config of
             TransportError e \<Rightarrow> True
           | Response status_code body \<Rightarrow> status_code \<noteq> 200 \<or> isl body))"

definition one_failure ::
  "nat \<Rightarrow> uploaded_file list \<Rightarrow> event list \<times> fs \<times> (pystr + result list) \<Rightarrow> bool" where
  "one_failure k files x =
     (\<exists>tr s' rs. x = (tr, s', Inr rs) \<and>
        map file_name rs = map (\<lambda>f. Some (up_name f)) files \<and>
        length (filter success rs) = length files - 1 \<and>
        length (filter (\<lambda>r. \<not> success r) rs) = 1 \<and>
        \<not> success (rs ! k) \<and> error (rs ! k) \<noteq> None)"

definition successes :: "event list \<times> fs \<times> (pystr + result list) \<Rightarrow> bool list" where
  "successes x = (case the_result x of None \<Rightarrow> [] | Some rs \<Rightarrow> map success rs)"

text \<open>The small world with the processor module importable and the engine missing: \<open>process_pdf\<close>
  takes its demonstration branch.\<close>

definition demo_world :: world where
  "demo_world = toy_world\<lparr>mineru_module := True\<rparr>"

text \<open>The texts of the warnings among the events of a run, in their order; and an operation
  that shows no warning outside the given set.\<close>

fun warnings :: "event list \<Rightarrow> pystr list" where
  "warnings [] = []"
| "warnings (Progress p m # es) = warnings es"
| "warnings (Warning m # es) = m # warnings es"

definition warns :: "pystr set \<Rightarrow> 'a io \<Rightarrow> bool" where
  "warns A m = (\<forall>s. set (warnings (fst (m s))) \<subseteq> A)"

text \<open>
  Three more small worlds. In the first a byte 0 stands for a page that PyMuPDF cannot load.
  In the second the processor module and the layout engine are installed, and the engine
  raises on the upload \<open>b.pdf\<close> of the workspace and returns, leaving no file, on any other.
\<close>

definition torn_world :: world where
  "torn_world =
     toy_world\<lparr>fitz_open := (\<lambda>n. case n of
                   Some (File b) \<Rightarrow>
                     Inr (map (\<lambda>c. if c = 0 then Inl (asc ''cannot load page'') else Inr [c]) b)
                 | Some Dir \<Rightarrow> Inl (asc ''is a directory'')
                 | None \<Rightarrow> Inl (asc ''no such file''))\<rparr>"

definition engine_world :: world where
  "engine_world =
     toy_world\<lparr>mineru_module := True, magic_pdf := True,
       do_parse := (\<lambda>p d m l. if p = asc ''/tmp/mineru_x/input/b.pdf''
                               then Inl (asc ''cannot parse'') else Inr [])\<rparr>"

text \<open>
  Texts for the conversion of Markdown to text. A plain text holds no newline and none of
  the characters a pattern of \<open>_markdown_to_text\<close> starts with. \<open>once d seen\<close> says that no line
  of a text holds the character \<open>d\<close> twice, \<open>seen\<close> telling whether the line the text starts in
  has held it before; \<open>norun d n\<close> says that a text holds no run of three \<open>d\<close>, when \<open>n\<close> of them
  stand right before it.
\<close>

definition plain :: "pystr \<Rightarrow> bool" where
  "plain t = (\<forall>c\<in>set t. c \<notin> {nl, hash, star, dash, lbr, tick, pipe})"

fun once :: "pychar \<Rightarrow> bool \<Rightarrow> pystr \<Rightarrow> bool" where
  "once d seen [] = True"
| "once d seen (c # cs) =
     (if c = nl then once d False cs
      else if c = d then \<not> seen \<and> once d True cs
      else once d seen cs)"

fun norun :: "pychar \<Rightarrow> nat \<Rightarrow> pystr \<Rightarrow> bool" where
  "norun d n [] = True"
| "norun d n (c # cs) = (if c = d then n < 2 \<and> norun d (Suc n) cs else norun d 0 cs)"

lemma asc_simps: "asc [] = []" "asc (c # s) = of_char c # asc s"
  by (simp_all add: asc_def)

section \<open>Basic extraction: pages and counts\<close>

lemma seq_ret [simp]: "seq (ret x) f = f x"
  by (rule ext) (simp add: seq_def ret_def split: prod.splits)

lemma seq_raise [simp]: "seq (raise e) f = raise e"
  by (rule ext) (simp add: seq_def raise_def)

lemmas io_defs = seq_def try_except_def ret_def raise_def progress_callback_def may_raise_def
  of_sum_def pure_io_def open_pdf_def path_getsize_def

lemma seqE:
  assumes "seq m f s = (tr, s', Inr r)"
  obtains tr1 s1 x tr2 where "m s = (tr1, s1, Inr x)" "f x s1 = (tr2, s', Inr r)" "tr = tr1 @ tr2"
  using assms by (auto simp: seq_def split: prod.splits sum.splits)

lemma try_raise_Inr:
  "try_except m (\<lambda>e. raise (g e)) s = (tr, s', Inr r) \<Longrightarrow> m s = (tr, s', Inr r)"
  by (auto simp: try_except_def raise_def split: prod.splits sum.splits)

lemma progress_Inr: "progress_callback cb p m s = (tr, s', Inr x) \<Longrightarrow> s' = s \<and> tr = emit cb p m"
  by (simp add: progress_callback_def)

lemma page_loop_snd:
  "snd (page_loop cb b wd n k (map Inr texts) md tx) =
     Inr (md @ page_md k texts, tx @ nonblank texts)"
  by (induction texts arbitrary: k md tx) (simp_all add: Let_def nonblank_def)

lemma page_loop_inv:
  "snd (page_loop cb b wd n k doc md tx) = Inr acc \<Longrightarrow> \<exists>texts. doc = map Inr texts"
proof (induction doc arbitrary: k md tx)
  case Nil
  then show ?case by simp
next
  case (Cons p doc)
  show ?case
  proof (cases p)
    case (Inl e)
    with Cons.prems show ?thesis by simp
  next
    case (Inr t)
    from Cons.prems Inr obtain md' tx' where
      "snd (page_loop cb b wd n (Suc k) doc md' tx') = Inr acc"
      by (simp add: Let_def)
    from Cons.IH [OF this] obtain texts where "doc = map Inr texts" by blast
    with Inr show ?thesis by (intro exI [of _ "t # texts"]) simp
  qed
qed

lemma nonblank_idem [simp]: "nonblank (nonblank texts) = nonblank texts"
  by (simp add: nonblank_def)

lemma basic_app_ok:
  assumes "fitz_import w = None" and "fitz_open w (s pdf_path) = Inr (map Inr texts)"
    and "getsize w (s pdf_path) = Inr sz"
  shows "\<exists>tr r. process_pdf_basic w pdf_path output_dir config cb s = (tr, s, Inr r) \<and>
           success r \<and> stats r = Some (basic_stats (length texts) (nonblank texts))"
  using assms
  by (simp add: process_pdf_basic_def io_defs Let_def page_loop_snd split: prod.splits)

lemma basic_vercel_ok:
  assumes "fitz_import w = None" and "fitz_open w (s pdf_path) = Inr (map Inr texts)"
  shows "\<exists>tr r. process_pdf_basic_vercel w pdf_path output_dir config cb s = (tr, s, Inr r) \<and>
           success r \<and> stats r = Some (basic_stats (length texts) (nonblank texts))"
  using assms
  by (simp add: process_pdf_basic_vercel_def io_defs Let_def page_loop_snd split: prod.splits)

lemma file_basic_ok:
  assumes "\<not> mineru_module w"
    and "process_pdf_basic w pdf_path output_dir config cb s = (tr, s', Inr r)"
  shows "process_pdf_file w pdf_path output_dir config cb s = (tr, s', Inr r)"
  using assms by (simp add: process_pdf_file_def try_except_def)

lemma basic_app_inv:
  assumes "process_pdf_basic w pdf_path output_dir config cb s = (tr, s', Inr r)"
  shows "\<exists>texts. fitz_open w (s pdf_path) = Inr (map Inr texts)"
  using assms
  by (simp add: process_pdf_basic_def io_defs Let_def
        split: prod.splits option.splits sum.splits if_splits)
     (auto dest: page_loop_inv)

lemma basic_app_stats:
  assumes "process_pdf_basic w pdf_path output_dir config cb s = (tr, s', Inr r)"
    and "fitz_open w (s pdf_path) = Inr (map Inr texts)"
  shows "success r \<and> stats r = Some (basic_stats (length texts) (nonblank texts))"
  using assms
  by (simp add: process_pdf_basic_def io_defs Let_def page_loop_snd
        split: prod.splits option.splits sum.splits if_splits) auto

lemma basic_vercel_inv:
  assumes "process_pdf_basic_vercel w pdf_path output_dir config cb s = (tr, s', Inr r)"
    and "success r"
  shows "\<exists>texts. fitz_open w (s pdf_path) = Inr (map Inr texts)"
  using assms
  by (simp add: process_pdf_basic_vercel_def io_defs Let_def failure_def
        split: prod.splits option.splits sum.splits if_splits)
     (auto dest: page_loop_inv)

lemma basic_vercel_stats:
  assumes "process_pdf_basic_vercel w pdf_path output_dir config cb s = (tr, s', Inr r)"
    and "success r" and "fitz_open w (s pdf_path) = Inr (map Inr texts)"
  shows "stats r = Some (basic_stats (length texts) (nonblank texts))"
  using assms
  by (simp add: process_pdf_basic_vercel_def io_defs Let_def page_loop_snd failure_def
        split: prod.splits option.splits sum.splits if_splits) auto

lemma toy_open [simp]:
  "fitz_open toy_world (Some (File (c # cs))) = Inr (map Inr (map (\<lambda>x. [x]) (c # cs)))"
  by (simp add: toy_world_def)

lemma toy_simps [simp]:
  "fitz_import toy_world = None" "\<not> mineru_module toy_world" "\<not> magic_pdf toy_world"
  "getsize toy_world (Some (File b)) = Inr (length b)"
  by (simp_all add: toy_world_def)

text \<open>
  C8. A PDF that PyMuPDF opens and whose pages it reads gives, in the basic branch of
  either application, a result with \<open>success\<close> true whose \<open>total_pages\<close> is the number of
  pages of the PDF, whatever the texts of the pages are, blank or not. In app.py this
  holds for \<open>process_pdf_basic\<close> and for \<open>process_pdf_file\<close> when it takes the basic branch.
\<close>

theorem basic_total_pages:
  assumes "fitz_import w = None"
    and "fitz_open w (s pdf_path) = Inr (map Inr texts)"
    and "getsize w (s pdf_path) = Inr sz"
  shows
    "(\<exists>tr r. process_pdf_basic w pdf_path output_dir config cb s = (tr, s, Inr r) \<and>
        success r \<and> map_option total_pages (stats r) = Some (length texts)) \<and>
     (\<not> mineru_module w \<longrightarrow>
      (\<exists>tr r. process_pdf_file w pdf_path output_dir config cb s = (tr, s, Inr r) \<and>
        success r \<and> map_option total_pages (stats r) = Some (length texts))) \<and>
     (\<exists>tr r. process_pdf_basic_vercel w pdf_path output_dir config cb s = (tr, s, Inr r) \<and>
        success r \<and> map_option total_pages (stats r) = Some (length texts))"
proof -
  from basic_app_ok [where s = s and pdf_path = pdf_path, OF assms] obtain tr r where
    a: "process_pdf_basic w pdf_path output_dir config cb s = (tr, s, Inr r)" "success r"
      "stats r = Some (basic_stats (length texts) (nonblank texts))"
    by blast
  from basic_vercel_ok [where s = s and pdf_path = pdf_path, OF assms(1,2)] obtain tr' r' where
    v: "process_pdf_basic_vercel w pdf_path output_dir config cb s = (tr', s, Inr r')"
      "success r'" "stats r' = Some (basic_stats (length texts) (nonblank texts))"
    by blast
  from a have "map_option total_pages (stats r) = Some (length texts)"
    by (simp add: basic_stats_def)
  moreover from v have "map_option total_pages (stats r') = Some (length texts)"
    by (simp add: basic_stats_def)
  ultimately show ?thesis
    using a(1,2) v(1,2) file_basic_ok [OF _ a(1)] by blast
qed

text \<open>
  The PDF of three pages with the texts \<open>a\<close>, a blank and \<open>b\<close>: both applications count
  three pages.
\<close>

theorem basic_total_pages_witness:
  "(\<exists>tr r. process_pdf_basic toy_world (asc ''in/a.pdf'') (asc ''out'') [] True
              (one_file (asc ''in/a.pdf'') [97, 32, 98]) =
              (tr, one_file (asc ''in/a.pdf'') [97, 32, 98], Inr r) \<and>
        success r \<and> map_option total_pages (stats r) = Some 3) \<and>
   (\<exists>tr r. process_pdf_file toy_world (asc ''in/a.pdf'') (asc ''out'') [] True
              (one_file (asc ''in/a.pdf'') [97, 32, 98]) =
              (tr, one_file (asc ''in/a.pdf'') [97, 32, 98], Inr r) \<and>
        success r \<and> map_option total_pages (stats r) = Some 3) \<and>
   (\<exists>tr r. process_pdf_basic_vercel toy_world (asc ''in/a.pdf'') (asc ''out'') [] True
              (one_file (asc ''in/a.pdf'') [97, 32, 98]) =
              (tr, one_file (asc ''in/a.pdf'') [97, 32, 98], Inr r) \<and>
        success r \<and> map_option total_pages (stats r) = Some 3)"
proof -
  let ?s = "one_file (asc ''in/a.pdf'') [97, 32, 98]"
  have 1: "fitz_import toy_world = None" by simp
  have 2: "fitz_open toy_world (?s (asc ''in/a.pdf'')) = Inr (map Inr [[97], [32], [98]])"
    by (simp add: one_file_def)
  have 3: "getsize toy_world (?s (asc ''in/a.pdf'')) = Inr 3"
    by (simp add: one_file_def)
  from basic_total_pages [where s = ?s and pdf_path = "asc ''in/a.pdf''", OF 1 2 3,
      of "asc ''out''" "[]" True]
  show ?thesis by (simp add: numeral_3_eq_3)
qed

text \<open>
  C10. A PDF that PyMuPDF opens and whose pages it reads gives, in the basic branch of
  either application, a successful result whose counts are: no tables, no formulas, and as
  many text blocks as there are pages whose text is not only whitespace (app.py also asks
  for the size of the file, and \<open>process_pdf_file\<close> gives the same result when it takes the
  basic branch). Conversely, whenever the basic branch returns a successful result, the PDF
  was opened and all its pages were read, and the counts are these. The configuration is
  not read: any two configurations, whatever their \<open>formula_enable\<close> and \<open>table_enable\<close>,
  give the same events, file system and result, also through \<open>process_pdf_file\<close> when it
  takes the basic branch.
\<close>

theorem basic_counts:
  "(fitz_import w = None \<and> fitz_open w (s pdf_path) = Inr (map Inr texts) \<longrightarrow>
      (\<exists>tr r. process_pdf_basic_vercel w pdf_path output_dir config cb s = (tr, s, Inr r) \<and>
         success r \<and>
         stats r = Some \<lparr>total_pages = length texts, text_blocks = length (nonblank texts),
                          tables = 0, formulas = 0\<rparr>) \<and>
      (\<forall>sz. getsize w (s pdf_path) = Inr sz \<longrightarrow>
         (\<exists>tr r. process_pdf_basic w pdf_path output_dir config cb s = (tr, s, Inr r) \<and>
            (\<not> mineru_module w \<longrightarrow>
               process_pdf_file w pdf_path output_dir config cb s = (tr, s, Inr r)) \<and>
            success r \<and>
            stats r = Some \<lparr>total_pages = length texts, text_blocks = length (nonblank texts),
                             tables = 0, formulas = 0\<rparr>))) \<and>
   (process_pdf_basic w pdf_path output_dir config cb s = (tr, s', Inr r) \<longrightarrow>
      (\<exists>texts. fitz_open w (s pdf_path) = Inr (map Inr texts) \<and>
         stats r = Some \<lparr>total_pages = length texts, text_blocks = length (nonblank texts),
                          tables = 0, formulas = 0\<rparr>)) \<and>
   (process_pdf_basic_vercel w pdf_path output_dir config cb s = (tr, s', Inr r) \<and> success r \<longrightarrow>
      (\<exists>texts. fitz_open w (s pdf_path) = Inr (map Inr texts) \<and>
         stats r = Some \<lparr>total_pages = length texts, text_blocks = length (nonblank texts),
                          tables = 0, formulas = 0\<rparr>)) \<and>
   process_pdf_basic w pdf_path output_dir config cb s =
     process_pdf_basic w pdf_path output_dir config' cb s \<and>
   process_pdf_basic_vercel w pdf_path output_dir config cb s =
     process_pdf_basic_vercel w pdf_path output_dir config' cb s \<and>
   (\<not> mineru_module w \<longrightarrow>
      process_pdf_file w pdf_path output_dir config cb s =
        process_pdf_file w pdf_path output_dir config' cb s)"
proof -
  have sts: "basic_stats (length texts) (nonblank texts) =
      \<lparr>total_pages = length texts, text_blocks = length (nonblank texts),
       tables = 0, formulas = 0\<rparr>" for texts
    by (simp add: basic_stats_def nonblank_def)
  have v: "\<exists>tr r. process_pdf_basic_vercel w pdf_path output_dir config cb s = (tr, s, Inr r) \<and>
         success r \<and>
         stats r = Some \<lparr>total_pages = length texts, text_blocks = length (nonblank texts),
                          tables = 0, formulas = 0\<rparr>"
    if "fitz_import w = None" "fitz_open w (s pdf_path) = Inr (map Inr texts)"
    using basic_vercel_ok [where s = s and pdf_path = pdf_path, OF that] sts by metis
  have a: "\<exists>tr r. process_pdf_basic w pdf_path output_dir config cb s = (tr, s, Inr r) \<and>
            (\<not> mineru_module w \<longrightarrow>
               process_pdf_file w pdf_path output_dir config cb s = (tr, s, Inr r)) \<and>
            success r \<and>
            stats r = Some \<lparr>total_pages = length texts, text_blocks = length (nonblank texts),
                             tables = 0, formulas = 0\<rparr>"
    if h: "fitz_import w = None" "fitz_open w (s pdf_path) = Inr (map Inr texts)"
      "getsize w (s pdf_path) = Inr sz" for sz
  proof -
    from basic_app_ok [where s = s and pdf_path = pdf_path, OF h] obtain tr r where
      r: "process_pdf_basic w pdf_path output_dir config cb s = (tr, s, Inr r)" "success r"
        "stats r = Some (basic_stats (length texts) (nonblank texts))"
      by blast
    with file_basic_ok [OF _ r(1)] sts show ?thesis by auto
  qed
  have p1: "\<exists>texts. fitz_open w (s pdf_path) = Inr (map Inr texts) \<and>
         stats r = Some \<lparr>total_pages = length texts, text_blocks = length (nonblank texts),
                          tables = 0, formulas = 0\<rparr>"
    if h: "process_pdf_basic w pdf_path output_dir config cb s = (tr, s', Inr r)"
    using basic_app_inv [OF h] basic_app_stats [OF h] sts by metis
  have p2: "\<exists>texts. fitz_open w (s pdf_path) = Inr (map Inr texts) \<and>
         stats r = Some \<lparr>total_pages = length texts, text_blocks = length (nonblank texts),
                          tables = 0, formulas = 0\<rparr>"
    if h: "process_pdf_basic_vercel w pdf_path output_dir config cb s = (tr, s', Inr r)"
      and ok: "success r"
    using basic_vercel_inv [OF h ok] basic_vercel_stats [OF h ok] sts by metis
  have c1: "process_pdf_basic w pdf_path output_dir config cb s =
     process_pdf_basic w pdf_path output_dir config' cb s"
    by (simp add: process_pdf_basic_def)
  have c2: "process_pdf_basic_vercel w pdf_path output_dir config cb s =
     process_pdf_basic_vercel w pdf_path output_dir config' cb s"
    by (simp add: process_pdf_basic_vercel_def)
  have c3: "process_pdf_file w pdf_path output_dir config cb s =
        process_pdf_file w pdf_path output_dir config' cb s" if "\<not> mineru_module w"
    using that by (simp add: process_pdf_file_def process_pdf_basic_def)
  show ?thesis
  proof (intro conjI)
    show "fitz_import w = None \<and> fitz_open w (s pdf_path) = Inr (map Inr texts) \<longrightarrow>
      (\<exists>tr r. process_pdf_basic_vercel w pdf_path output_dir config cb s = (tr, s, Inr r) \<and>
         success r \<and>
         stats r = Some \<lparr>total_pages = length texts, text_blocks = length (nonblank texts),
                          tables = 0, formulas = 0\<rparr>) \<and>
      (\<forall>sz. getsize w (s pdf_path) = Inr sz \<longrightarrow>
         (\<exists>tr r. process_pdf_basic w pdf_path output_dir config cb s = (tr, s, Inr r) \<and>
            (\<not> mineru_module w \<longrightarrow>
               process_pdf_file w pdf_path output_dir config cb s = (tr, s, Inr r)) \<and>
            success r \<and>
            stats r = Some \<lparr>total_pages = length texts, text_blocks = length (nonblank texts),
                             tables = 0, formulas = 0\<rparr>))"
      using v a by blast
  qed (use p1 p2 c1 c2 c3 in blast)+
qed

text \<open>
  The PDF of three pages with the texts \<open>a\<close>, a blank and \<open>b\<close>, in both applications: three
  pages, two text blocks, and the same run with \<open>formula_enable\<close> and \<open>table_enable\<close> switched
  off.
\<close>

theorem basic_counts_witness:
  "(\<exists>tr r. process_pdf_basic_vercel toy_world (asc ''in/a.pdf'') (asc ''out'') [] True
             (one_file (asc ''in/a.pdf'') [97, 32, 98]) =
             (tr, one_file (asc ''in/a.pdf'') [97, 32, 98], Inr r) \<and>
           success r \<and>
           stats r = Some \<lparr>total_pages = 3, text_blocks = 2, tables = 0, formulas = 0\<rparr> \<and>
           process_pdf_basic_vercel toy_world (asc ''in/a.pdf'') (asc ''out'')
             [(''formula_enable'', CBool False), (''table_enable'', CBool False)] True
             (one_file (asc ''in/a.pdf'') [97, 32, 98]) =
             (tr, one_file (asc ''in/a.pdf'') [97, 32, 98], Inr r)) \<and>
   (\<exists>tr r. process_pdf_basic toy_world (asc ''in/a.pdf'') (asc ''out'') [] True
             (one_file (asc ''in/a.pdf'') [97, 32, 98]) =
             (tr, one_file (asc ''in/a.pdf'') [97, 32, 98], Inr r) \<and>
           process_pdf_file toy_world (asc ''in/a.pdf'') (asc ''out'') [] True
             (one_file (asc ''in/a.pdf'') [97, 32, 98]) =
             (tr, one_file (asc ''in/a.pdf'') [97, 32, 98], Inr r) \<and>
           success r \<and>
           stats r = Some \<lparr>total_pages = 3, text_blocks = 2, tables = 0, formulas = 0\<rparr> \<and>
           process_pdf_basic toy_world (asc ''in/a.pdf'') (asc ''out'')
             [(''formula_enable'', CBool False), (''table_enable'', CBool False)] True
             (one_file (asc ''in/a.pdf'') [97, 32, 98]) =
             (tr, one_file (asc ''in/a.pdf'') [97, 32, 98], Inr r) \<and>
           process_pdf_file toy_world (asc ''in/a.pdf'') (asc ''out'')
             [(''formula_enable'', CBool False), (''table_enable'', CBool False)] True
             (one_file (asc ''in/a.pdf'') [97, 32, 98]) =
             (tr, one_file (asc ''in/a.pdf'') [97, 32, 98], Inr r))"
proof -
  let ?s = "one_file (asc ''in/a.pdf'') [97, 32, 98]"
  let ?p = "asc ''in/a.pdf''"
  let ?c = "[(''formula_enable'', CBool False), (''table_enable'', CBool False)]"
  have 1: "fitz_import toy_world = None" by simp
  have 2: "fitz_open toy_world (?s ?p) = Inr (map Inr [[97], [32], [98]])"
    by (simp add: one_file_def)
  have 3: "getsize toy_world (?s ?p) = Inr 3"
    by (simp add: one_file_def)
  have 4: "\<not> mineru_module toy_world" by simp
  have 5: "length (nonblank [[97], [32], [98::nat]]) = 2"
    by (simp add: nonblank_def strip_def is_space_def)
  let ?st = "Some \<lparr>total_pages = length [[97], [32], [98::nat]],
      text_blocks = length (nonblank [[97], [32], [98::nat]]), tables = 0, formulas = 0\<rparr>"
  note th = basic_counts [of toy_world ?s ?p "[[97], [32], [98]]" "asc ''out''" "[]" True
      "[]" ?s "failure [] False" ?c]
  from th 1 2 obtain tr r where
    v: "process_pdf_basic_vercel toy_world ?p (asc ''out'') [] True ?s = (tr, ?s, Inr r)"
      "success r" "stats r = ?st"
    by blast
  from th 1 2 3 obtain tr' r' where
    a: "process_pdf_basic toy_world ?p (asc ''out'') [] True ?s = (tr', ?s, Inr r')"
      "\<not> mineru_module toy_world \<longrightarrow>
         process_pdf_file toy_world ?p (asc ''out'') [] True ?s = (tr', ?s, Inr r')"
      "success r'" "stats r' = ?st"
    by blast
  from th 4 have c:
    "process_pdf_basic toy_world ?p (asc ''out'') [] True ?s =
       process_pdf_basic toy_world ?p (asc ''out'') ?c True ?s"
    "process_pdf_basic_vercel toy_world ?p (asc ''out'') [] True ?s =
       process_pdf_basic_vercel toy_world ?p (asc ''out'') ?c True ?s"
    "process_pdf_file toy_world ?p (asc ''out'') [] True ?s =
       process_pdf_file toy_world ?p (asc ''out'') ?c True ?s"
    by blast+
  have st: "?st = Some \<lparr>total_pages = 3, text_blocks = 2, tables = 0, formulas = 0\<rparr>"
    by (simp add: 5)
  from v c(2) st have "\<exists>tr r. process_pdf_basic_vercel toy_world ?p (asc ''out'') [] True ?s =
      (tr, ?s, Inr r) \<and> success r \<and>
      stats r = Some \<lparr>total_pages = 3, text_blocks = 2, tables = 0, formulas = 0\<rparr> \<and>
      process_pdf_basic_vercel toy_world ?p (asc ''out'') ?c True ?s = (tr, ?s, Inr r)"
    by (intro exI [of _ tr] exI [of _ r]) simp
  moreover from a 4 c(1,3) st have "\<exists>tr r. process_pdf_basic toy_world ?p (asc ''out'') [] True ?s =
      (tr, ?s, Inr r) \<and>
      process_pdf_file toy_world ?p (asc ''out'') [] True ?s = (tr, ?s, Inr r) \<and> success r \<and>
      stats r = Some \<lparr>total_pages = 3, text_blocks = 2, tables = 0, formulas = 0\<rparr> \<and>
      process_pdf_basic toy_world ?p (asc ''out'') ?c True ?s = (tr, ?s, Inr r) \<and>
      process_pdf_file toy_world ?p (asc ''out'') ?c True ?s = (tr, ?s, Inr r)"
    by (intro exI [of _ tr'] exI [of _ r']) simp
  ultimately show ?thesis by blast
qed

section \<open>The outputs of a successful result\<close>

lemma py_join_nil: "py_join [] xs = concat xs"
  by (induction "[]::pystr" xs rule: py_join.induct) simp_all

lemma page_md_nil: "page_md k texts = [] \<longleftrightarrow> nonblank texts = []"
  by (induction texts arbitrary: k) (simp_all add: nonblank_def)

lemma page_md_entries: "e \<in> set (page_md k texts) \<Longrightarrow> e \<noteq> []"
  by (induction texts arbitrary: k) (auto split: if_splits)

lemma concat_page_md: "concat (page_md k texts) = [] \<longleftrightarrow> nonblank texts = []"
  using page_md_entries [of _ k texts] page_md_nil [of k texts]
  by (cases "page_md k texts") auto

lemma wrapper_I:
  assumes "\<exists>a c. h = a @ asc ''<html>'' @ c" and "\<exists>a c. t = a @ asc ''</html>'' @ c"
  shows "has_html_wrapper (h @ b @ t)"
proof -
  from assms obtain a c a' c' where "h = a @ asc ''<html>'' @ c" "t = a' @ asc ''</html>'' @ c'"
    by blast
  then have "h @ b @ t = a @ asc ''<html>'' @ (c @ b @ a') @ asc ''</html>'' @ c'" by simp
  then show ?thesis unfolding has_html_wrapper_def by blast
qed

lemma head_app: "\<exists>a c. html_head_app = a @ asc ''<html>'' @ c"
  by (rule exI [of _ "asc ''\<newline>'' @ asc ''<!DOCTYPE html>\<newline>''"])
     (simp add: html_head_app_def asc_simps)

lemma head_vercel: "\<exists>a c. html_head_vercel = a @ asc ''<html>'' @ c"
  by (rule exI [of _ "asc ''\<newline>'' @ asc ''<!DOCTYPE html>\<newline>''"])
     (simp add: html_head_vercel_def asc_simps)

lemma head_styled: "\<exists>a c. html_head_styled = a @ asc ''<html>'' @ c"
  by (rule exI [of _ "asc ''\<newline>'' @ asc ''<!DOCTYPE html>\<newline>''"])
     (simp add: html_head_styled_def asc_simps)

lemma head_plain: "\<exists>a c. html_head_plain = a @ asc ''<html>'' @ c"
  by (rule exI [of _ "asc ''\<newline>'' @ asc ''<!DOCTYPE html>\<newline>''"])
     (simp add: html_head_plain_def asc_simps)

lemma tail_basic: "\<exists>a c. html_tail_basic = a @ asc ''</html>'' @ c"
  by (rule exI [of _ "asc ''</div>\<newline></body>\<newline>''"])
     (simp add: html_tail_basic_def asc_simps)

lemma tail_md: "\<exists>a c. html_tail_md = a @ asc ''</html>'' @ c"
  by (rule exI [of _ "asc ''\<newline></body>\<newline>''"])
     (simp add: html_tail_md_def asc_simps)

lemma basic_html_wrapper:
  "has_html_wrapper (basic_html html_head_app t)"
  "has_html_wrapper (basic_html html_head_vercel t)"
  unfolding basic_html_def
  by (rule wrapper_I [OF head_app tail_basic], rule wrapper_I [OF head_vercel tail_basic])

lemma markdown_to_html_wrapper:
  "markdown_to_html w m s = (tr, s', Inr html) \<Longrightarrow> has_html_wrapper html"
  by (cases "markdown_lib w m")
     (auto simp: markdown_to_html_def ret_def raise_def
        intro: wrapper_I [OF head_styled tail_md] wrapper_I [OF head_plain tail_md])

lemma basic_app_outputs:
  assumes "process_pdf_basic w pdf_path output_dir config cb s = (tr, s', Inr r)"
    and "fitz_open w (s pdf_path) = Inr (map Inr texts)"
  shows "map_of (outputs r) ''markdown_content'' = Some (concat (page_md 0 texts)) \<and>
         map_of (outputs r) ''html_content'' =
           Some (basic_html html_head_app (py_join [nl, nl] (nonblank texts)))"
  using assms
  by (simp add: process_pdf_basic_def io_defs Let_def page_loop_snd py_join_nil
        split: prod.splits option.splits sum.splits if_splits) auto

lemma basic_vercel_outputs:
  assumes "process_pdf_basic_vercel w pdf_path output_dir config cb s = (tr, s', Inr r)"
    and "success r" and "fitz_open w (s pdf_path) = Inr (map Inr texts)"
  shows "map_of (outputs r) ''markdown_content'' = Some (concat (page_md 0 texts)) \<and>
         map_of (outputs r) ''html_content'' =
           Some (basic_html html_head_vercel (py_join [nl, nl] (nonblank texts)))"
  using assms
  by (simp add: process_pdf_basic_vercel_def io_defs Let_def page_loop_snd py_join_nil failure_def
        split: prod.splits option.splits sum.splits if_splits) auto

lemma demo_outputs:
  assumes "create_demo_result w pdf_path output_dir cb s = (tr, s', Inr r)"
  shows "success r \<and>
         stats r = Some \<lparr>total_pages = 1, text_blocks = 4, tables = 1, formulas = 3\<rparr> \<and>
         map_of (outputs r) ''markdown_content'' =
           Some (demo_md_pre @ path_stem pdf_path @ demo_md_post) \<and>
         map_of (outputs r) ''text_content'' =
           Some (markdown_to_text (demo_md_pre @ path_stem pdf_path @ demo_md_post)) \<and>
         (\<exists>html. map_of (outputs r) ''html_content'' = Some html \<and> has_html_wrapper html)"
  using assms
  by (simp add: create_demo_result_def io_defs Let_def write_file_def
        split: prod.splits option.splits sum.splits if_splits)
     (auto dest: markdown_to_html_wrapper)

lemma mineru_output_keys:
  assumes "process_mineru_output w walk output_dir pdf_path s = (tr, s', Inr outs)"
  shows "\<exists>md html.
            map_of outs ''markdown_content'' = Some md \<and>
            (case fst (scan_walk walk) of
               None \<Rightarrow> md = md_placeholder
             | Some f \<Rightarrow> read_text w f = Inr md) \<and>
            map_of outs ''html_content'' = Some html \<and> has_html_wrapper html"
  using assms unfolding process_mineru_output_def Let_def
  by (elim seqE)
     (auto simp: ret_def of_sum_def raise_def output_get_def
        split: option.splits sum.splits elim!: seqE dest: markdown_to_html_wrapper)

lemma mineru_outputs:
  assumes "process_with_mineru w pdf_path output_dir language parse_method fe te cb s =
             (tr, s', Inr r)"
  shows "success r \<and>
         (\<exists>walk md html.
            do_parse w pdf_path output_dir parse_method
              (if language \<noteq> CStr (asc ''auto'') then language else CStr (asc ''ch'')) = Inr walk \<and>
            map_of (outputs r) ''markdown_content'' = Some md \<and>
            (case fst (scan_walk walk) of
               None \<Rightarrow> md = md_placeholder
             | Some f \<Rightarrow> read_text w f = Inr md) \<and>
            map_of (outputs r) ''html_content'' = Some html \<and> has_html_wrapper html)"
proof -
  from assms [unfolded process_with_mineru_def Let_def, THEN try_raise_Inr]
  obtain walk s1 t1 outs where
    w: "do_parse w pdf_path output_dir parse_method
              (if language \<noteq> CStr (asc ''auto'') then language else CStr (asc ''ch'')) = Inr walk"
    and o: "process_mineru_output w walk output_dir pdf_path s1 = (t1, s', Inr outs)"
    and r: "r = \<lparr>success = True, outputs = outs, stats = Some (calculate_stats outs),
             meth = Some (asc ''mineru''), error = None, traceback = False,
             file_name = None\<rparr>"
    by (elim seqE) (auto simp: of_sum_def ret_def raise_def progress_callback_def split: sum.splits)
  from mineru_output_keys [OF o] w r show ?thesis by auto
qed

lemma md_placeholder_nonempty: "md_placeholder \<noteq> []"
  by (simp add: md_placeholder_def asc_simps)

lemma demo_md_nonempty: "demo_md_pre @ x @ demo_md_post \<noteq> []"
  by (simp add: demo_md_pre_def asc_simps)

text \<open>
  C1, as the code has it. A successful result has the keys \<open>markdown_content\<close> and
  \<open>html_content\<close> in every branch, and the HTML has an opening \<open><html>\<close> with a closing
  \<open></html>\<close> behind it. The Markdown of the basic branch, in both applications, is empty
  exactly when no page has a text other than whitespace. The Markdown of the
  demonstration branch is never empty. The Markdown of the advanced branch is the
  placeholder text, which is not empty, when the engine left no Markdown file, and what
  was read from that file otherwise.
\<close>

theorem successful_outputs:
  "((process_pdf_basic w pdf_path output_dir config cb s = (tr, s', Inr r) \<or>
     process_pdf_basic_vercel w pdf_path output_dir config cb s = (tr, s', Inr r) \<and> success r) \<longrightarrow>
      (\<exists>texts md html.
          fitz_open w (s pdf_path) = Inr (map Inr texts) \<and>
          map_of (outputs r) ''markdown_content'' = Some md \<and>
          map_of (outputs r) ''html_content'' = Some html \<and>
          has_html_wrapper html \<and>
          (md = [] \<longleftrightarrow> nonblank texts = []))) \<and>
   (create_demo_result w pdf_path output_dir cb s = (tr, s', Inr r) \<longrightarrow>
      success r \<and>
      (\<exists>md html.
          map_of (outputs r) ''markdown_content'' = Some md \<and> md \<noteq> [] \<and>
          map_of (outputs r) ''html_content'' = Some html \<and> has_html_wrapper html)) \<and>
   (process_with_mineru w pdf_path output_dir language parse_method fe te cb s = (tr, s', Inr r) \<longrightarrow>
      success r \<and>
      (\<exists>walk md html.
          do_parse w pdf_path output_dir parse_method
            (if language \<noteq> CStr (asc ''auto'') then language else CStr (asc ''ch'')) = Inr walk \<and>
          map_of (outputs r) ''markdown_content'' = Some md \<and>
          (case fst (scan_walk walk) of
             None \<Rightarrow> md = md_placeholder \<and> md \<noteq> []
           | Some f \<Rightarrow> read_text w f = Inr md) \<and>
          map_of (outputs r) ''html_content'' = Some html \<and> has_html_wrapper html))"
proof (intro conjI impI)
  assume "process_pdf_basic w pdf_path output_dir config cb s = (tr, s', Inr r) \<or>
     process_pdf_basic_vercel w pdf_path output_dir config cb s = (tr, s', Inr r) \<and> success r"
  then show "\<exists>texts md html.
          fitz_open w (s pdf_path) = Inr (map Inr texts) \<and>
          map_of (outputs r) ''markdown_content'' = Some md \<and>
          map_of (outputs r) ''html_content'' = Some html \<and>
          has_html_wrapper html \<and>
          (md = [] \<longleftrightarrow> nonblank texts = [])"
  proof
    assume h: "process_pdf_basic w pdf_path output_dir config cb s = (tr, s', Inr r)"
    from basic_app_inv [OF h] obtain texts where
      t: "fitz_open w (s pdf_path) = Inr (map Inr texts)" by blast
    from basic_app_outputs [OF h t] t show ?thesis
      using basic_html_wrapper(1) concat_page_md by blast
  next
    assume "process_pdf_basic_vercel w pdf_path output_dir config cb s = (tr, s', Inr r) \<and>
      success r"
    then have h: "process_pdf_basic_vercel w pdf_path output_dir config cb s = (tr, s', Inr r)"
      and ok: "success r" by simp_all
    from basic_vercel_inv [OF h ok] obtain texts where
      t: "fitz_open w (s pdf_path) = Inr (map Inr texts)" by blast
    from basic_vercel_outputs [OF h ok t] t show ?thesis
      using basic_html_wrapper(2) concat_page_md by blast
  qed
next
  assume h: "create_demo_result w pdf_path output_dir cb s = (tr, s', Inr r)"
  from demo_outputs [OF h] show "success r" by simp
  from demo_outputs [OF h] show "\<exists>md html.
          map_of (outputs r) ''markdown_content'' = Some md \<and> md \<noteq> [] \<and>
          map_of (outputs r) ''html_content'' = Some html \<and> has_html_wrapper html"
    using demo_md_nonempty by blast
next
  assume h: "process_with_mineru w pdf_path output_dir language parse_method fe te cb s =
    (tr, s', Inr r)"
  from mineru_outputs [OF h] show "success r" by simp
  from mineru_outputs [OF h] obtain walk md html where
    m: "do_parse w pdf_path output_dir parse_method
          (if language \<noteq> CStr (asc ''auto'') then language else CStr (asc ''ch'')) = Inr walk"
      "map_of (outputs r) ''markdown_content'' = Some md"
      "case fst (scan_walk walk) of None \<Rightarrow> md = md_placeholder | Some f \<Rightarrow> read_text w f = Inr md"
      "map_of (outputs r) ''html_content'' = Some html" "has_html_wrapper html"
    by blast
  from m(3) have "case fst (scan_walk walk) of
             None \<Rightarrow> md = md_placeholder \<and> md \<noteq> []
           | Some f \<Rightarrow> read_text w f = Inr md"
    using md_placeholder_nonempty by (simp split: option.splits)
  with m show "\<exists>walk md html.
          do_parse w pdf_path output_dir parse_method
            (if language \<noteq> CStr (asc ''auto'') then language else CStr (asc ''ch'')) = Inr walk \<and>
          map_of (outputs r) ''markdown_content'' = Some md \<and>
          (case fst (scan_walk walk) of
             None \<Rightarrow> md = md_placeholder \<and> md \<noteq> []
           | Some f \<Rightarrow> read_text w f = Inr md) \<and>
          map_of (outputs r) ''html_content'' = Some html \<and> has_html_wrapper html"
    by blast
qed

text \<open>
  The PDF of three pages with the texts \<open>a\<close>, a blank and \<open>b\<close> in the basic branch of
  streamlit_app_vercel.py: the Markdown is not empty and the HTML has its wrapper.
\<close>

theorem successful_outputs_witness:
  "\<exists>md html.
     output_of ''markdown_content''
       (process_pdf_basic_vercel toy_world (asc ''in/a.pdf'') (asc ''out'') [] True
          (one_file (asc ''in/a.pdf'') [97, 32, 98])) = Some md \<and> md \<noteq> [] \<and>
     output_of ''html_content''
       (process_pdf_basic_vercel toy_world (asc ''in/a.pdf'') (asc ''out'') [] True
          (one_file (asc ''in/a.pdf'') [97, 32, 98])) = Some html \<and> has_html_wrapper html"
proof -
  let ?s = "one_file (asc ''in/a.pdf'') [97, 32, 98]"
  let ?p = "asc ''in/a.pdf''"
  have 1: "fitz_import toy_world = None" by simp
  have 2: "fitz_open toy_world (?s ?p) = Inr (map Inr [[97], [32], [98]])"
    by (simp add: one_file_def)
  from basic_vercel_ok [where s = ?s and pdf_path = ?p, OF 1 2, of "asc ''out''" "[]" True]
  obtain tr r where
    run: "process_pdf_basic_vercel toy_world ?p (asc ''out'') [] True ?s = (tr, ?s, Inr r)"
    and ok: "success r"
    by blast
  from successful_outputs [of toy_world ?p "asc ''out''" "[]" True ?s tr ?s r] run ok
  obtain texts md html where
    t: "fitz_open toy_world (?s ?p) = Inr (map Inr texts)"
    and o: "map_of (outputs r) ''markdown_content'' = Some md"
      "map_of (outputs r) ''html_content'' = Some html" "has_html_wrapper html"
      "md = [] \<longleftrightarrow> nonblank texts = []"
    by blast
  from t 2 have "map Inr texts = (map Inr [[97], [32], [98]] :: page list)" by simp
  then have "texts = [[97], [32], [98]]" by (auto simp: map_eq_Cons_conv)
  with o(4) have "md \<noteq> []" by (simp add: nonblank_def strip_def is_space_def)
  with o run show ?thesis
    by (intro exI [of _ md] exI [of _ html]) (simp add: output_of_def the_result_def)
qed

text \<open>
  C1 as stated fails in the basic branch on a PDF whose only page is a blank: the result
  has \<open>success\<close> true and an empty \<open>markdown_content\<close>.
\<close>

theorem blank_pdf_empty_markdown:
  "succeeded (process_pdf_basic_vercel toy_world (asc ''in/a.pdf'') (asc ''out'') [] True
                (one_file (asc ''in/a.pdf'') [32])) \<and>
   output_of ''markdown_content''
     (process_pdf_basic_vercel toy_world (asc ''in/a.pdf'') (asc ''out'') [] True
        (one_file (asc ''in/a.pdf'') [32])) = Some []"
proof -
  let ?s = "one_file (asc ''in/a.pdf'') [32]"
  let ?p = "asc ''in/a.pdf''"
  have 1: "fitz_import toy_world = None" by simp
  have 2: "fitz_open toy_world (?s ?p) = Inr (map Inr [[32]])"
    by (simp add: one_file_def)
  from basic_vercel_ok [where s = ?s and pdf_path = ?p, OF 1 2, of "asc ''out''" "[]" True]
  obtain tr r where
    run: "process_pdf_basic_vercel toy_world ?p (asc ''out'') [] True ?s = (tr, ?s, Inr r)"
    and ok: "success r"
    by blast
  from basic_vercel_outputs [OF run ok 2]
  have "map_of (outputs r) ''markdown_content'' = Some []"
    by (simp add: strip_def is_space_def)
  with run ok show ?thesis
    by (simp add: succeeded_def output_of_def the_result_def)
qed

section \<open>The remote service is not available\<close>

lemma call_api_unavailable:
  assumes "api_url w = Some url" and "url \<noteq> []"
    and "api_post w (url @ asc ''/process'') (s pdf_path) config = TransportError e \<or>
         (\<exists>code body. api_post w (url @ asc ''/process'') (s pdf_path) config = Response code body \<and>
            code \<noteq> 200)"
  shows "call_mineru_api w pdf_path config cb s = (emit cb (2 / 10) msg_api_connect, s, Inr None)"
  using assms by (auto simp: call_mineru_api_def io_defs)

lemma api_fallback_events:
  assumes "api_url w = Some url" and "url \<noteq> []"
    and "api_post w (url @ asc ''/process'') (Some (File (up_data f))) config = TransportError e \<or>
         (\<exists>code body.
            api_post w (url @ asc ''/process'') (Some (File (up_data f))) config =
              Response code body \<and> code \<noteq> 200)"
  shows
    "snd (process_uploaded_vercel w (asc ''api'') config input_dir output_dir f s) =
     snd (process_uploaded_vercel w (asc ''basic'') config input_dir output_dir f s) \<and>
     (write_error w (path_join input_dir (up_name f)) = None \<longrightarrow>
        fst (process_uploaded_vercel w (asc ''api'') config input_dir output_dir f s) =
        Progress (2 / 10) msg_api_connect # Warning msg_api_fallback #
        fst (process_uploaded_vercel w (asc ''basic'') config input_dir output_dir f s))"
proof -
  let ?p = "path_join input_dir (up_name f)"
  let ?s = "s(?p \<mapsto> File (up_data f))"
  have ne: "asc ''basic'' \<noteq> asc ''api''" by (simp add: asc_simps)
  have "?s ?p = Some (File (up_data f))" by simp
  with assms(3) have
    "api_post w (url @ asc ''/process'') (?s ?p) config = TransportError e \<or>
     (\<exists>code body. api_post w (url @ asc ''/process'') (?s ?p) config = Response code body \<and>
        code \<noteq> 200)"
    by simp
  from call_api_unavailable [where s = ?s and pdf_path = ?p, OF assms(1,2) this]
  have api: "call_mineru_api w ?p config True ?s =
      ([Progress (2 / 10) msg_api_connect], ?s, Inr None)"
    by (simp add: emit_def)
  show ?thesis
  proof (cases "write_error w ?p")
    case (Some e')
    then show ?thesis
      by (simp add: process_uploaded_vercel_def Let_def write_file_def seq_def)
  next
    case None
    then show ?thesis
      using api ne
      by (simp add: process_uploaded_vercel_def Let_def write_file_def seq_def warning_def
            split: prod.splits sum.splits)
  qed
qed

text \<open>
  C3. The remote branch is selected and an address is configured, but the request for
  the uploaded file raises or is answered with a status other than 200. Then
  \<open>call_mineru_api\<close> gives \<open>None\<close>, and the body of the loop leaves the same file system and
  returns the same result, or raises the same exception, as it does in the basic mode. When
  the upload could be saved, the events of the run are the connection status of
  \<open>call_mineru_api\<close> and the warning that the service is not available, followed by the events
  of the basic mode: nothing is shown as an error.
\<close>

theorem api_unavailable_falls_back:
  assumes "api_url w = Some url" and "url \<noteq> []"
    and "api_post w (url @ asc ''/process'') (Some (File (up_data f))) config = TransportError e \<or>
         (\<exists>code body.
            api_post w (url @ asc ''/process'') (Some (File (up_data f))) config =
              Response code body \<and> code \<noteq> 200)"
  shows
    "snd (process_uploaded_vercel w (asc ''api'') config input_dir output_dir f s) =
     snd (process_uploaded_vercel w (asc ''basic'') config input_dir output_dir f s) \<and>
     (write_error w (path_join input_dir (up_name f)) = None \<longrightarrow>
        fst (process_uploaded_vercel w (asc ''api'') config input_dir output_dir f s) =
        Progress (2 / 10) msg_api_connect # Warning msg_api_fallback #
        fst (process_uploaded_vercel w (asc ''basic'') config input_dir output_dir f s))"
  using assms by (rule api_fallback_events)

text \<open>The service answers the upload \<open>a.pdf\<close> with the status 500.\<close>

theorem api_unavailable_falls_back_witness:
  "snd (process_uploaded_vercel (with_api (Response 500 (Inl []))) (asc ''api'') []
          (asc ''in'') (asc ''out'') \<lparr>up_name = asc ''a.pdf'', up_data = [97]\<rparr> (\<lambda>p. None)) =
   snd (process_uploaded_vercel (with_api (Response 500 (Inl []))) (asc ''basic'') []
          (asc ''in'') (asc ''out'') \<lparr>up_name = asc ''a.pdf'', up_data = [97]\<rparr> (\<lambda>p. None)) \<and>
   fst (process_uploaded_vercel (with_api (Response 500 (Inl []))) (asc ''api'') []
          (asc ''in'') (asc ''out'') \<lparr>up_name = asc ''a.pdf'', up_data = [97]\<rparr> (\<lambda>p. None)) =
   Progress (2 / 10) msg_api_connect # Warning msg_api_fallback #
   fst (process_uploaded_vercel (with_api (Response 500 (Inl []))) (asc ''basic'') []
          (asc ''in'') (asc ''out'') \<lparr>up_name = asc ''a.pdf'', up_data = [97]\<rparr> (\<lambda>p. None))"
proof -
  let ?w = "with_api (Response 500 (Inl []))"
  have 1: "api_url ?w = Some (asc ''http://api'')" by (simp add: with_api_def)
  have 2: "asc ''http://api'' \<noteq> []" by (simp add: asc_simps)
  have 3: "api_post ?w (asc ''http://api'' @ asc ''/process'')
             (Some (File (up_data \<lparr>up_name = asc ''a.pdf'', up_data = [97]\<rparr>))) [] =
             TransportError [] \<or>
           (\<exists>code body. api_post ?w (asc ''http://api'' @ asc ''/process'')
             (Some (File (up_data \<lparr>up_name = asc ''a.pdf'', up_data = [97]\<rparr>))) [] =
              Response code body \<and> code \<noteq> 200)"
    by (simp add: with_api_def)
  have 4: "write_error ?w p = None" for p by (simp add: with_api_def toy_world_def)
  from api_unavailable_falls_back [OF 1 2 3, of "asc ''in''" "asc ''out''" "\<lambda>p. None"] 4
  show ?thesis by simp
qed

section \<open>The demonstration result\<close>







section \<open>Progress\<close>

lemma fractions_append [simp]: "fractions (a @ b) = fractions a @ fractions b"
  by (induction a rule: fractions.induct) simp_all

lemma statuses_append [simp]: "statuses (a @ b) = statuses a @ statuses b"
  by (induction a rule: statuses.induct) simp_all

lemma steady_nil [simp]: "steady lo hi []"
  by (simp add: steady_def)




lemma fst_seq:
  "fst (seq m f s) =
     (case m s of (tr, s', Inl e) \<Rightarrow> tr | (tr, s', Inr x) \<Rightarrow> tr @ fst (f x s'))"
  by (simp add: seq_def split: prod.splits sum.splits)

lemma fst_try:
  "fst (try_except m h s) =
     (case m s of (tr, s', Inl e) \<Rightarrow> tr @ fst (h e s') | (tr, s', Inr x) \<Rightarrow> tr)"
  by (simp add: try_except_def split: prod.splits sum.splits)










lemma msgs_nonempty [simp]:
  "msg_init \<noteq> []" "msg_init_basic \<noteq> []" "msg_read_pdf \<noteq> []" "msg_output \<noteq> []"
  "msg_done \<noteq> []" "msg_configure \<noteq> []" "msg_parse \<noteq> []" "msg_demo_content \<noteq> []"
  "msg_demo_done \<noteq> []" "msg_api_connect \<noteq> []" "msg_api_done \<noteq> []"
  "msg_failed_prefix \<noteq> []" "msg_start_pre \<noteq> []" "msg_process_pre \<noteq> []"
  "msg_page_pre \<noteq> []"
  by (simp_all add: msg_init_def msg_init_basic_def msg_read_pdf_def msg_output_def msg_done_def
        msg_configure_def msg_parse_def msg_demo_content_def msg_demo_done_def msg_api_connect_def
        msg_api_done_def msg_failed_prefix_def msg_start_pre_def msg_process_pre_def
        msg_page_pre_def)











lemma try_failure_cases:
  assumes "try_except m
             (\<lambda>e. seq (progress_callback True 1 (msg_failed_prefix @ e))
                    (\<lambda>u. ret (failure (msg_error_prefix @ e) tb))) s = (tr, s', Inr r)"
  obtains (returned) "m s = (tr, s', Inr r)" | (failed) "ends_failed tr r"
proof (cases "m s")
  case (fields tr0 s0 r0)
  show ?thesis
  proof (cases r0)
    case (Inr x)
    with fields assms have "m s = (tr, s', Inr r)"
      by (simp add: try_except_def)
    then show ?thesis by (rule returned)
  next
    case (Inl e)
    with fields assms have "tr = tr0 @ [Progress 1 (msg_failed_prefix @ e)]"
      "r = failure (msg_error_prefix @ e) tb"
      by (simp_all add: try_except_def seq_def progress_callback_def ret_def emit_def)
    then have "ends_failed tr r" by (simp add: ends_failed_def failure_def)
    then show ?thesis by (rule failed)
  qed
qed

lemma basic_vercel_failed:
  assumes "process_pdf_basic_vercel w pdf_path output_dir config True s = (tr, s', Inr r)"
  shows "success r \<or> ends_failed tr r"
  using assms unfolding process_pdf_basic_vercel_def Let_def
  by (elim try_failure_cases seqE) (auto simp: ret_def)

lemma process_pdf_failed:
  assumes "process_pdf w pdf_path output_dir language parse_method fe te True s = (tr, s', Inr r)"
  shows "success r \<or> ends_failed tr r"
  using assms unfolding process_pdf_def
  by (elim try_failure_cases seqE)
     (auto split: if_splits dest: demo_outputs mineru_outputs)

lemma process_pdf_file_failed:
  assumes "process_pdf_file w pdf_path output_dir config True s = (tr, s', Inr r)"
  shows "success r \<or> ends_failed tr r"
  using assms unfolding process_pdf_file_def
  by (elim try_failure_cases)
     (auto split: if_splits dest: process_pdf_failed basic_app_inv basic_app_stats)


lemma try_returns:
  "(\<And>e s. \<exists>tr s' r. h e s = (tr, s', Inr r)) \<Longrightarrow> \<exists>tr s' r. try_except m h s = (tr, s', Inr r)"
proof -
  assume h: "\<And>e s. \<exists>tr s' r. h e s = (tr, s', Inr r)"
  obtain tr s1 out where m: "m s = (tr, s1, out)" by (cases "m s") auto
  show ?thesis
  proof (cases out)
    case (Inl e)
    from h [of e s1] obtain tr2 s2 r where "h e s1 = (tr2, s2, Inr r)" by blast
    with m Inl show ?thesis by (simp add: try_except_def)
  next
    case (Inr r)
    with m show ?thesis by (simp add: try_except_def)
  qed
qed

lemma failed_returns:
  "\<exists>tr s' r. seq (progress_callback cb p msg) (\<lambda>u. ret x) s = (tr, s', Inr r)"
  by (simp add: seq_def progress_callback_def ret_def)

lemma process_pdf_file_returns:
  "\<exists>tr s' r. process_pdf_file w pdf_path output_dir config cb s = (tr, s', Inr r)"
  unfolding process_pdf_file_def by (rule try_returns) (rule failed_returns)

lemma basic_vercel_returns:
  "\<exists>tr s' r. process_pdf_basic_vercel w pdf_path output_dir config cb s = (tr, s', Inr r)"
  unfolding process_pdf_basic_vercel_def by (rule try_returns) (rule failed_returns)













section \<open>The temporary workspace\<close>

lemma st_seq:
  "fst (snd (seq m f s)) =
     (case m s of (tr, s', Inl e) \<Rightarrow> s' | (tr, s', Inr x) \<Rightarrow> fst (snd (f x s')))"
  by (simp add: seq_def split: prod.splits sum.splits)

lemma st_try:
  "fst (snd (try_except m h s)) =
     (case m s of (tr, s', Inl e) \<Rightarrow> fst (snd (h e s')) | (tr, s', Inr x) \<Rightarrow> s')"
  by (simp add: try_except_def split: prod.splits sum.splits)

lemma grows_seq: "grows m \<Longrightarrow> (\<forall>x. grows (f x)) \<Longrightarrow> grows (seq m f)"
  unfolding grows_def st_seq
  by (auto split: prod.splits sum.splits) (metis fst_conv snd_conv)+

lemma grows_try: "grows m \<Longrightarrow> (\<forall>e. grows (h e)) \<Longrightarrow> grows (try_except m h)"
  unfolding grows_def st_try
  by (auto split: prod.splits sum.splits) (metis fst_conv snd_conv)+

lemma grows_if: "grows a \<Longrightarrow> grows b \<Longrightarrow> grows (if c then a else b)"
  by simp

lemma grows_basic [simp]:
  "grows (ret x)" "grows (raise e)" "grows (may_raise o1)" "grows (of_sum r)"
  "grows (makedirs w p)" "grows (write_file w p c)" "grows (open_pdf w p)"
  "grows (path_getsize w p)" "grows (progress_callback cb q msg)" "grows (warning msg)"
  "grows (pure_io x')"
  by (auto simp: grows_def ret_def raise_def may_raise_def of_sum_def makedirs_def
        write_file_def open_pdf_def path_getsize_def progress_callback_def warning_def pure_io_def
        path_exists_def split: option.splits sum.splits)

lemma grows_md [simp]: "grows (markdown_to_html w m)"
  by (cases "markdown_lib w m") (simp_all add: markdown_to_html_def)

lemmas grows_intros = grows_try grows_seq grows_if grows_basic grows_md

lemma grows_mineru_output [simp]: "grows (process_mineru_output w walk output_dir pdf_path)"
  unfolding process_mineru_output_def Let_def
  by (intro grows_intros allI) (simp_all add: grows_seq split: option.splits)

lemma grows_basic_app [simp]: "grows (process_pdf_basic w pdf_path output_dir config cb)"
  unfolding process_pdf_basic_def Let_def by (intro grows_intros allI)

lemma grows_basic_vercel [simp]:
  "grows (process_pdf_basic_vercel w pdf_path output_dir config cb)"
  unfolding process_pdf_basic_vercel_def Let_def by (intro grows_intros allI)

lemma grows_demo [simp]: "grows (create_demo_result w pdf_path output_dir cb)"
  unfolding create_demo_result_def Let_def by (intro grows_intros allI)

lemma grows_mineru [simp]:
  "grows (process_with_mineru w pdf_path output_dir language parse_method fe te cb)"
  unfolding process_with_mineru_def Let_def by (intro grows_intros grows_mineru_output allI)

lemma grows_process_pdf [simp]:
  "grows (process_pdf w pdf_path output_dir language parse_method fe te cb)"
  unfolding process_pdf_def by (intro grows_intros grows_demo grows_mineru allI)

lemma grows_process_pdf_file [simp]:
  "grows (process_pdf_file w pdf_path output_dir config cb)"
  unfolding process_pdf_file_def
  by (intro grows_intros grows_process_pdf grows_basic_app allI)

lemma grows_api [simp]: "grows (call_mineru_api w pdf_path config cb)"
proof (cases "api_url w")
  case None
  then show ?thesis unfolding call_mineru_api_def by (intro grows_intros allI) simp_all
next
  case (Some url)
  have q: "grows (\<lambda>s. (case api_post w (url @ asc ''/process'') (s pdf_path) config of
                          TransportError e \<Rightarrow> raise e
                        | Response status_code body \<Rightarrow> ret (status_code, body)) s)"
    by (auto simp: grows_def raise_def ret_def split: api_response.splits)
  show ?thesis
    unfolding call_mineru_api_def Some option.case
    by (intro grows_intros q allI)
qed

lemma grows_uploaded [simp]: "grows (process_uploaded w config input_dir output_dir f)"
  unfolding process_uploaded_def Let_def by (intro grows_intros grows_process_pdf_file allI)

lemma grows_uploaded_vercel [simp]:
  "grows (process_uploaded_vercel w mode config input_dir output_dir f)"
  unfolding process_uploaded_vercel_def Let_def
  by (intro grows_intros grows_api grows_basic_vercel allI) (simp_all add: grows_seq split: option.splits)

lemma grows_files: "(\<forall>f. grows (step f)) \<Longrightarrow> grows (process_files step files)"
  by (induction files) (simp_all add: grows_seq)

lemma rfind_last: "c \<notin> set ys \<Longrightarrow> rfind c (xs @ c # ys) = Some (length xs)"
proof -
  assume a: "c \<notin> set ys"
  then have "takeWhile (\<lambda>x. x \<noteq> c) (rev ys @ c # rev xs) = rev ys"
    by (subst takeWhile_append2) auto
  then show ?thesis by (simp add: rfind_def)
qed

lemma dirname_join:
  assumes "d \<noteq> []" and "last d \<noteq> slash"
  shows "path_join d (asc ''input'') = d @ slash # asc ''input''"
    and "path_join d (asc ''output'') = d @ slash # asc ''output''"
    and "dirname (path_join d (asc ''input'')) = d"
proof -
  from assms have ns: "\<not> suffix [slash] d"
    by (auto simp: suffix_def)
  show j: "path_join d (asc ''input'') = d @ slash # asc ''input''"
    using assms ns by (simp add: path_join_def asc_simps slash_def)
  show "path_join d (asc ''output'') = d @ slash # asc ''output''"
    using assms ns by (simp add: path_join_def asc_simps slash_def)
  have "slash \<notin> set (asc ''input'')" by (simp add: asc_simps slash_def)
  then have r: "rfind slash (d @ slash # asc ''input'') = Some (length d)"
    by (rule rfind_last)
  from assms have "last d \<in> set d" by simp
  with assms(2) have ne: "set (d @ [slash]) \<noteq> {slash}" by auto
  from assms obtain x xs where rd: "rev d = x # xs" "x \<noteq> slash"
    by (cases d rule: rev_cases) auto
  then have "rev (dropWhile (\<lambda>x. x = slash) (rev (d @ [slash]))) = rev (rev d)"
    by simp
  then show "dirname (path_join d (asc ''input'')) = d"
    using ne by (simp add: j dirname_def r)
qed

lemma create_temp_dirs_ok:
  assumes "mkdtemp w (asc ''mineru_'') = Inr d"
    and "makedirs_error w (path_join d (asc ''input'')) = None"
    and "makedirs_error w (path_join d (asc ''output'')) = None"
  shows "\<exists>s1. create_temp_dirs w s =
           ([], s1, Inr (path_join d (asc ''input''), path_join d (asc ''output''))) \<and>
         path_exists s1 d"
  using assms
  by (simp add: create_temp_dirs_def Let_def seq_def makedirs_def ret_def path_exists_def)

lemma cleanup_ok:
  "rmtree_error w d = None \<Longrightarrow> \<not> path_exists (fst (snd (cleanup_temp_dirs w d s))) d"
  by (simp add: cleanup_temp_dirs_def try_except_def rmtree_def ret_def path_exists_def below_def)

lemma cleanup_fails:
  "rmtree_error w d = Some e \<Longrightarrow> path_exists s d \<Longrightarrow>
     cleanup_temp_dirs w d s = ([Warning (msg_cleanup_warning @ e)], s, Inr ())"
  by (simp add: cleanup_temp_dirs_def try_except_def rmtree_def warning_def)

lemma finally_cleanup:
  assumes "mkdtemp w (asc ''mineru_'') = Inr d" and "d \<noteq> []" and "last d \<noteq> slash"
    and "makedirs_error w (path_join d (asc ''input'')) = None"
    and "makedirs_error w (path_join d (asc ''output'')) = None"
    and "\<forall>dirs. grows (body dirs)"
  shows "(rmtree_error w d = None \<longrightarrow>
           \<not> path_exists (fst (snd (seq (create_temp_dirs w) (\<lambda>dirs.
                try_finally (body dirs) (cleanup_temp_dirs w (dirname (fst dirs)))) s))) d) \<and>
         (\<forall>e. rmtree_error w d = Some e \<longrightarrow>
           path_exists (fst (snd (seq (create_temp_dirs w) (\<lambda>dirs.
                try_finally (body dirs) (cleanup_temp_dirs w (dirname (fst dirs)))) s))) d \<and>
           Warning (msg_cleanup_warning @ e) \<in> set (fst (seq (create_temp_dirs w) (\<lambda>dirs.
                try_finally (body dirs) (cleanup_temp_dirs w (dirname (fst dirs)))) s)))"
proof -
  let ?dirs = "(path_join d (asc ''input''), path_join d (asc ''output''))"
  from create_temp_dirs_ok [OF assms(1,4,5)] obtain s1 where
    c: "create_temp_dirs w s = ([], s1, Inr ?dirs)" and e1: "path_exists s1 d"
    by blast
  obtain ps s2 r where b: "body ?dirs s1 = (ps, s2, r)" by (cases "body ?dirs s1") auto
  from assms(6) e1 b have e2: "path_exists s2 d"
    unfolding grows_def by (metis fst_conv snd_conv)
  have dn: "dirname (fst ?dirs) = d" using dirname_join(3) [OF assms(2,3)] by simp
  have run: "seq (create_temp_dirs w) (\<lambda>dirs.
       try_finally (body dirs) (cleanup_temp_dirs w (dirname (fst dirs)))) s =
     (case cleanup_temp_dirs w d s2 of
        (ps', s3, Inl e) \<Rightarrow> (ps @ ps', s3, Inl e)
      | (ps', s3, Inr u) \<Rightarrow> (ps @ ps', s3, r))"
    using c b dn by (simp add: seq_def try_finally_def split: prod.splits sum.splits)
  show ?thesis
  proof (intro conjI impI allI)
    assume "rmtree_error w d = None"
    from cleanup_ok [OF this, of s2] show
      "\<not> path_exists (fst (snd (seq (create_temp_dirs w) (\<lambda>dirs.
                try_finally (body dirs) (cleanup_temp_dirs w (dirname (fst dirs)))) s))) d"
      unfolding run by (auto split: prod.splits sum.splits)
  next
    fix e assume "rmtree_error w d = Some e"
    from cleanup_fails [OF this e2] e2 show
      "path_exists (fst (snd (seq (create_temp_dirs w) (\<lambda>dirs.
                try_finally (body dirs) (cleanup_temp_dirs w (dirname (fst dirs)))) s))) d"
      "Warning (msg_cleanup_warning @ e) \<in> set (fst (seq (create_temp_dirs w) (\<lambda>dirs.
                try_finally (body dirs) (cleanup_temp_dirs w (dirname (fst dirs)))) s))"
      unfolding run by simp_all
  qed
qed

lemma workspace_after:
  assumes "mkdtemp w (asc ''mineru_'') = Inr d" and "d \<noteq> []" and "last d \<noteq> slash"
    and "makedirs_error w (path_join d (asc ''input'')) = None"
    and "makedirs_error w (path_join d (asc ''output'')) = None"
  shows
    "(rmtree_error w d = None \<longrightarrow>
        \<not> path_exists (fst (snd (main w config uploaded_files s))) d \<and>
        \<not> path_exists (fst (snd (main_vercel w language processing_mode uploaded_files s))) d) \<and>
     (\<forall>e. rmtree_error w d = Some e \<longrightarrow>
        path_exists (fst (snd (main w config uploaded_files s))) d \<and>
        Warning (msg_cleanup_warning @ e) \<in> set (fst (main w config uploaded_files s)) \<and>
        path_exists (fst (snd (main_vercel w language processing_mode uploaded_files s))) d \<and>
        Warning (msg_cleanup_warning @ e) \<in>
          set (fst (main_vercel w language processing_mode uploaded_files s)))"
proof -
  have g1: "\<forall>dirs. grows (process_files (process_uploaded w config (fst dirs) (snd dirs))
      uploaded_files)"
    by (simp add: grows_files)
  have g2: "\<forall>dirs. grows (process_files (process_uploaded_vercel w processing_mode
      [(''language'', CStr language), (''processing_mode'', CStr processing_mode)]
      (fst dirs) (snd dirs)) uploaded_files)"
    by (simp add: grows_files)
  from finally_cleanup [OF assms g1, of s] finally_cleanup [OF assms g2, of s]
  show ?thesis unfolding main_def main_vercel_def Let_def by blast
qed

lemma warnings_append [simp]: "warnings (a @ b) = warnings a @ warnings b"
  by (induction a rule: warnings.induct) simp_all

lemma warnings_emit [simp]: "warnings (emit cb p m) = []"
  by (simp add: emit_def)

lemma warns_seq: "warns A m \<Longrightarrow> (\<forall>x. warns A (f x)) \<Longrightarrow> warns A (seq m f)"
  unfolding warns_def fst_seq
  by (auto split: prod.splits sum.splits) (metis fst_conv subsetD)+

lemma warns_try: "warns A m \<Longrightarrow> (\<forall>e. warns A (h e)) \<Longrightarrow> warns A (try_except m h)"
  unfolding warns_def fst_try
  by (auto split: prod.splits sum.splits) (metis fst_conv subsetD)+

lemma warns_if: "warns A a \<Longrightarrow> warns A b \<Longrightarrow> warns A (if c then a else b)"
  by simp

lemma page_loop_warnings [simp]: "warnings (fst (page_loop cb b wd n k pages md tx)) = []"
  by (induction pages arbitrary: k md tx) (simp_all add: Let_def split: sum.splits)

lemma warns_basic [simp]:
  "warns A (ret x)" "warns A (raise e)" "warns A (may_raise o1)" "warns A (of_sum r)"
  "warns A (makedirs w p)" "warns A (write_file w p c)" "warns A (open_pdf w p)"
  "warns A (path_getsize w p)" "warns A (progress_callback cb q msg)"
  "warns A (pure_io (page_loop cb b wd n k pages md tx))"
  by (auto simp: warns_def ret_def raise_def may_raise_def of_sum_def makedirs_def
        write_file_def open_pdf_def path_getsize_def progress_callback_def pure_io_def
        split: option.splits sum.splits)

lemma warns_warning [simp]: "msg \<in> A \<Longrightarrow> warns A (warning msg)"
  by (simp add: warns_def warning_def)

lemma warns_md [simp]: "warns A (markdown_to_html w m)"
  by (cases "markdown_lib w m") (simp_all add: markdown_to_html_def)

lemmas warns_intros = warns_try warns_seq warns_if warns_basic warns_md

lemma warns_mineru_output [simp]: "warns A (process_mineru_output w walk output_dir pdf_path)"
  unfolding process_mineru_output_def Let_def
  by (intro warns_intros allI) (simp_all add: warns_seq split: option.splits)

lemma warns_basic_app [simp]: "warns A (process_pdf_basic w pdf_path output_dir config cb)"
  unfolding process_pdf_basic_def Let_def by (intro warns_intros allI)

lemma warns_basic_vercel [simp]:
  "warns A (process_pdf_basic_vercel w pdf_path output_dir config cb)"
  unfolding process_pdf_basic_vercel_def Let_def by (intro warns_intros allI)

lemma warns_demo [simp]: "warns A (create_demo_result w pdf_path output_dir cb)"
  unfolding create_demo_result_def Let_def by (intro warns_intros allI)

lemma warns_mineru [simp]:
  "warns A (process_with_mineru w pdf_path output_dir language parse_method fe te cb)"
  unfolding process_with_mineru_def Let_def by (intro warns_intros warns_mineru_output allI)

lemma warns_process_pdf [simp]:
  "warns A (process_pdf w pdf_path output_dir language parse_method fe te cb)"
  unfolding process_pdf_def by (intro warns_intros warns_demo warns_mineru allI)

lemma warns_process_pdf_file [simp]:
  "warns A (process_pdf_file w pdf_path output_dir config cb)"
  unfolding process_pdf_file_def
  by (intro warns_intros warns_process_pdf warns_basic_app allI)

lemma warns_api [simp]: "warns A (call_mineru_api w pdf_path config cb)"
proof (cases "api_url w")
  case None
  then show ?thesis unfolding call_mineru_api_def by (intro warns_intros allI) simp_all
next
  case (Some url)
  have q: "warns A (\<lambda>s. (case api_post w (url @ asc ''/process'') (s pdf_path) config of
                          TransportError e \<Rightarrow> raise e
                        | Response status_code body \<Rightarrow> ret (status_code, body)) s)"
    by (auto simp: warns_def raise_def ret_def split: api_response.splits)
  show ?thesis
    unfolding call_mineru_api_def Some option.case
    by (intro warns_intros q allI)
qed

lemma warns_uploaded [simp]: "warns A (process_uploaded w config input_dir output_dir f)"
  unfolding process_uploaded_def Let_def by (intro warns_intros warns_process_pdf_file allI)

lemma warns_uploaded_vercel [simp]:
  "warns {msg_api_fallback} (process_uploaded_vercel w mode config input_dir output_dir f)"
  unfolding process_uploaded_vercel_def Let_def
  by (intro warns_intros warns_api warns_basic_vercel allI)
     (simp_all add: warns_seq split: option.splits)

lemma warns_files: "(\<forall>f. warns A (step f)) \<Longrightarrow> warns A (process_files step files)"
  by (induction files) (simp_all add: warns_seq)

lemma cleanup_returns: "\<exists>ps s'. cleanup_temp_dirs w t s = (ps, s', Inr ())"
  by (cases "rmtree_error w t")
     (simp_all add: cleanup_temp_dirs_def try_except_def rmtree_def ret_def warning_def)

lemma finally_once:
  assumes "mkdtemp w (asc ''mineru_'') = Inr d" and "d \<noteq> []" and "last d \<noteq> slash"
    and "makedirs_error w (path_join d (asc ''input'')) = None"
    and "makedirs_error w (path_join d (asc ''output'')) = None"
    and "\<forall>dirs. grows (body dirs)"
  shows "\<exists>s1 tr s2 out.
      create_temp_dirs w s =
        ([], s1, Inr (path_join d (asc ''input''), path_join d (asc ''output''))) \<and>
      body (path_join d (asc ''input''), path_join d (asc ''output'')) s1 = (tr, s2, out) \<and>
      path_exists s2 d \<and>
      seq (create_temp_dirs w) (\<lambda>dirs.
        try_finally (body dirs) (cleanup_temp_dirs w (dirname (fst dirs)))) s =
        (tr @ fst (cleanup_temp_dirs w d s2), fst (snd (cleanup_temp_dirs w d s2)), out)"
proof -
  let ?dirs = "(path_join d (asc ''input''), path_join d (asc ''output''))"
  from create_temp_dirs_ok [OF assms(1,4,5)] obtain s1 where
    c: "create_temp_dirs w s = ([], s1, Inr ?dirs)" and e1: "path_exists s1 d"
    by blast
  obtain tr s2 out where b: "body ?dirs s1 = (tr, s2, out)" by (cases "body ?dirs s1") auto
  from assms(6) e1 b have e2: "path_exists s2 d"
    unfolding grows_def by (metis fst_conv snd_conv)
  have dn: "dirname (fst ?dirs) = d" using dirname_join(3) [OF assms(2,3)] by simp
  from cleanup_returns [of w d s2] obtain ps s3 where
    cl: "cleanup_temp_dirs w d s2 = (ps, s3, Inr ())" by blast
  have "seq (create_temp_dirs w) (\<lambda>dirs.
       try_finally (body dirs) (cleanup_temp_dirs w (dirname (fst dirs)))) s =
     (tr @ fst (cleanup_temp_dirs w d s2), fst (snd (cleanup_temp_dirs w d s2)), out)"
    using c b dn cl by (simp add: seq_def try_finally_def)
  with c b e2 show ?thesis by blast
qed

lemma cleanup_once:
  assumes "path_exists s d"
  shows "(rmtree_error w d = None \<longrightarrow>
            cleanup_temp_dirs w d s = ([], (\<lambda>p. if below d p then None else s p), Inr ())) \<and>
         (\<forall>e. rmtree_error w d = Some e \<longrightarrow>
            cleanup_temp_dirs w d s = ([Warning (msg_cleanup_warning @ e)], s, Inr ()))"
  using assms
  by (simp add: cleanup_temp_dirs_def try_except_def rmtree_def warning_def)

lemma not_fallback: "msg_cleanup_warning @ e \<noteq> msg_api_fallback"
  by (simp add: msg_cleanup_warning_def msg_api_fallback_def asc_simps)

lemma workspace_once:
  assumes "mkdtemp w (asc ''mineru_'') = Inr d" and "d \<noteq> []" and "last d \<noteq> slash"
    and "makedirs_error w (path_join d (asc ''input'')) = None"
    and "makedirs_error w (path_join d (asc ''output'')) = None"
    and "\<forall>dirs. grows (body dirs)" and "\<forall>dirs. warns A (body dirs)"
    and "x = seq (create_temp_dirs w) (\<lambda>dirs.
        try_finally (body dirs) (cleanup_temp_dirs w (dirname (fst dirs)))) s"
  shows "(\<exists>s1 tr s2 out.
      create_temp_dirs w s =
        ([], s1, Inr (path_join d (asc ''input''), path_join d (asc ''output''))) \<and>
      body (path_join d (asc ''input''), path_join d (asc ''output'')) s1 = (tr, s2, out) \<and>
      x = (tr @ fst (cleanup_temp_dirs w d s2), fst (snd (cleanup_temp_dirs w d s2)), out)) \<and>
     (rmtree_error w d = None \<longrightarrow>
        \<not> path_exists (fst (snd x)) d \<and> filter (\<lambda>m. m \<notin> A) (warnings (fst x)) = []) \<and>
     (\<forall>e. rmtree_error w d = Some e \<longrightarrow>
        path_exists (fst (snd x)) d \<and>
        filter (\<lambda>m. m \<notin> A) (warnings (fst x)) =
          filter (\<lambda>m. m \<notin> A) [msg_cleanup_warning @ e])"
proof -
  let ?dirs = "(path_join d (asc ''input''), path_join d (asc ''output''))"
  from finally_once [OF assms(1-6), of s] assms(8) obtain s1 tr s2 out where
    c: "create_temp_dirs w s = ([], s1, Inr ?dirs)" and b: "body ?dirs s1 = (tr, s2, out)"
    and e2: "path_exists s2 d"
    and x: "x = (tr @ fst (cleanup_temp_dirs w d s2), fst (snd (cleanup_temp_dirs w d s2)), out)"
    by blast
  from assms(7) b have "set (warnings tr) \<subseteq> A"
    unfolding warns_def by (metis fst_conv)
  then have q: "filter (\<lambda>m. m \<notin> A) (warnings tr) = []" by (auto simp: filter_empty_conv)
  note cl = cleanup_once [OF e2, of w]
  have 1: "\<not> path_exists (fst (snd x)) d \<and> filter (\<lambda>m. m \<notin> A) (warnings (fst x)) = []"
    if "rmtree_error w d = None"
    using cl that q unfolding x by (simp add: path_exists_def below_def)
  have 2: "path_exists (fst (snd x)) d \<and>
        filter (\<lambda>m. m \<notin> A) (warnings (fst x)) = filter (\<lambda>m. m \<notin> A) [msg_cleanup_warning @ e]"
    if "rmtree_error w d = Some e" for e
    using cl that q e2 unfolding x by simp
  from c b x 1 2 show ?thesis by blast
qed

text \<open>
  C4, as the code has it. The workspace has been created: \<open>mkdtemp\<close> gave a directory,
  named without a slash at its end, and its two subdirectories were made. Then a run of
  \<open>main\<close>, in either application, is the loop over the files followed by one run of
  \<open>cleanup_temp_dirs\<close> on the file system the loop left, whatever the files are and whether
  the loop returned or raised; \<open>main\<close> returns or raises what the loop did. If
  \<open>shutil.rmtree\<close> does not raise, the directory does not exist afterwards and no warning of
  the cleanup is shown. If it raises, the exception is caught, the directory is still there,
  and the warning with its message is shown exactly once. (The only other warning of a run
  is the one of streamlit_app_vercel.py that the remote service is not available.)
\<close>

theorem workspace_removed:
  assumes "mkdtemp w (asc ''mineru_'') = Inr d" and "d \<noteq> []" and "last d \<noteq> slash"
    and "makedirs_error w (path_join d (asc ''input'')) = None"
    and "makedirs_error w (path_join d (asc ''output'')) = None"
  shows
    "(\<exists>s1 tr s2 out.
        create_temp_dirs w s =
          ([], s1, Inr (path_join d (asc ''input''), path_join d (asc ''output''))) \<and>
        process_files
          (process_uploaded w config (path_join d (asc ''input'')) (path_join d (asc ''output'')))
          uploaded_files s1 = (tr, s2, out) \<and>
        main w config uploaded_files s =
          (tr @ fst (cleanup_temp_dirs w d s2), fst (snd (cleanup_temp_dirs w d s2)), out)) \<and>
     (\<exists>s1 tr s2 out.
        create_temp_dirs w s =
          ([], s1, Inr (path_join d (asc ''input''), path_join d (asc ''output''))) \<and>
        process_files
          (process_uploaded_vercel w processing_mode
             [(''language'', CStr language), (''processing_mode'', CStr processing_mode)]
             (path_join d (asc ''input'')) (path_join d (asc ''output'')))
          uploaded_files s1 = (tr, s2, out) \<and>
        main_vercel w language processing_mode uploaded_files s =
          (tr @ fst (cleanup_temp_dirs w d s2), fst (snd (cleanup_temp_dirs w d s2)), out)) \<and>
     (rmtree_error w d = None \<longrightarrow>
        \<not> path_exists (fst (snd (main w config uploaded_files s))) d \<and>
        warnings (fst (main w config uploaded_files s)) = [] \<and>
        \<not> path_exists (fst (snd (main_vercel w language processing_mode uploaded_files s))) d \<and>
        filter (\<lambda>m. m \<noteq> msg_api_fallback)
          (warnings (fst (main_vercel w language processing_mode uploaded_files s))) = []) \<and>
     (\<forall>e. rmtree_error w d = Some e \<longrightarrow>
        path_exists (fst (snd (main w config uploaded_files s))) d \<and>
        warnings (fst (main w config uploaded_files s)) = [msg_cleanup_warning @ e] \<and>
        path_exists (fst (snd (main_vercel w language processing_mode uploaded_files s))) d \<and>
        filter (\<lambda>m. m \<noteq> msg_api_fallback)
          (warnings (fst (main_vercel w language processing_mode uploaded_files s))) =
          [msg_cleanup_warning @ e])"
proof -
  have g1: "\<forall>dirs. grows (process_files (process_uploaded w config (fst dirs) (snd dirs))
      uploaded_files)"
    by (simp add: grows_files)
  have g2: "\<forall>dirs. grows (process_files (process_uploaded_vercel w processing_mode
      [(''language'', CStr language), (''processing_mode'', CStr processing_mode)]
      (fst dirs) (snd dirs)) uploaded_files)"
    by (simp add: grows_files)
  have w1: "\<forall>dirs. warns {} (process_files (process_uploaded w config (fst dirs) (snd dirs))
      uploaded_files)"
    by (simp add: warns_files)
  have w2: "\<forall>dirs. warns {msg_api_fallback} (process_files (process_uploaded_vercel w
      processing_mode
      [(''language'', CStr language), (''processing_mode'', CStr processing_mode)]
      (fst dirs) (snd dirs)) uploaded_files)"
    by (simp add: warns_files)
  have m1: "main w config uploaded_files s =
      seq (create_temp_dirs w) (\<lambda>dirs.
        try_finally (process_files (process_uploaded w config (fst dirs) (snd dirs))
          uploaded_files) (cleanup_temp_dirs w (dirname (fst dirs)))) s"
    by (simp add: main_def Let_def)
  have m2: "main_vercel w language processing_mode uploaded_files s =
      seq (create_temp_dirs w) (\<lambda>dirs.
        try_finally (process_files (process_uploaded_vercel w processing_mode
          [(''language'', CStr language), (''processing_mode'', CStr processing_mode)]
          (fst dirs) (snd dirs)) uploaded_files) (cleanup_temp_dirs w (dirname (fst dirs)))) s"
    by (simp add: main_vercel_def Let_def)
  note a = workspace_once [OF assms g1 w1 m1]
  note b = workspace_once [OF assms g2 w2 m2]
  from a have a1: "\<exists>s1 tr s2 out.
        create_temp_dirs w s =
          ([], s1, Inr (path_join d (asc ''input''), path_join d (asc ''output''))) \<and>
        process_files
          (process_uploaded w config (path_join d (asc ''input'')) (path_join d (asc ''output'')))
          uploaded_files s1 = (tr, s2, out) \<and>
        main w config uploaded_files s =
          (tr @ fst (cleanup_temp_dirs w d s2), fst (snd (cleanup_temp_dirs w d s2)), out)"
    by simp
  from b have b1: "\<exists>s1 tr s2 out.
        create_temp_dirs w s =
          ([], s1, Inr (path_join d (asc ''input''), path_join d (asc ''output''))) \<and>
        process_files
          (process_uploaded_vercel w processing_mode
             [(''language'', CStr language), (''processing_mode'', CStr processing_mode)]
             (path_join d (asc ''input'')) (path_join d (asc ''output'')))
          uploaded_files s1 = (tr, s2, out) \<and>
        main_vercel w language processing_mode uploaded_files s =
          (tr @ fst (cleanup_temp_dirs w d s2), fst (snd (cleanup_temp_dirs w d s2)), out)"
    by simp
  have a2: "\<not> path_exists (fst (snd (main w config uploaded_files s))) d \<and>
        warnings (fst (main w config uploaded_files s)) = []"
    if "rmtree_error w d = None"
    using a that by simp
  have b2: "\<not> path_exists (fst (snd (main_vercel w language processing_mode uploaded_files s))) d \<and>
        filter (\<lambda>m. m \<noteq> msg_api_fallback)
          (warnings (fst (main_vercel w language processing_mode uploaded_files s))) = []"
    if "rmtree_error w d = None"
    using b that by simp
  have a3: "path_exists (fst (snd (main w config uploaded_files s))) d \<and>
        warnings (fst (main w config uploaded_files s)) = [msg_cleanup_warning @ e]"
    if "rmtree_error w d = Some e" for e
    using a that by simp
  have b3: "path_exists (fst (snd (main_vercel w language processing_mode uploaded_files s))) d \<and>
        filter (\<lambda>m. m \<noteq> msg_api_fallback)
          (warnings (fst (main_vercel w language processing_mode uploaded_files s))) =
          [msg_cleanup_warning @ e]"
    if "rmtree_error w d = Some e" for e
    using b that by (simp add: not_fallback)
  from a1 b1 a2 b2 a3 b3 show ?thesis by blast
qed

lemma toy_workspace:
  "mkdtemp toy_world (asc ''mineru_'') = Inr (asc ''/tmp/mineru_x'')"
  "mkdtemp busy_world (asc ''mineru_'') = Inr (asc ''/tmp/mineru_x'')"
  "asc ''/tmp/mineru_x'' \<noteq> []" "last (asc ''/tmp/mineru_x'') \<noteq> slash"
  "makedirs_error toy_world p = None" "makedirs_error busy_world p = None"
  "rmtree_error toy_world p = None" "rmtree_error busy_world p = Some (asc ''device busy'')"
  by (simp_all add: toy_world_def busy_world_def asc_simps slash_def)

text \<open>
  A batch of one file that cannot be opened. In the small world the workspace is gone and no
  warning was shown; where \<open>shutil.rmtree\<close> raises, the one warning of the cleanup was shown.
\<close>

theorem workspace_removed_witness:
  "\<not> path_exists
       (fst (snd (main toy_world [] [\<lparr>up_name = asc ''a.pdf'', up_data = []\<rparr>] (\<lambda>p. None))))
       (asc ''/tmp/mineru_x'') \<and>
   warnings (fst (main toy_world [] [\<lparr>up_name = asc ''a.pdf'', up_data = []\<rparr>] (\<lambda>p. None))) = [] \<and>
   \<not> path_exists
       (fst (snd (main_vercel toy_world (asc ''ch'') (asc ''basic'')
                    [\<lparr>up_name = asc ''a.pdf'', up_data = []\<rparr>] (\<lambda>p. None))))
       (asc ''/tmp/mineru_x'') \<and>
   warnings (fst (main busy_world [] [\<lparr>up_name = asc ''a.pdf'', up_data = []\<rparr>] (\<lambda>p. None))) =
     [msg_cleanup_warning @ asc ''device busy'']"
  using workspace_removed [OF toy_workspace(1,3,4,5,5), of "\<lambda>p. None" "[]"
      "[\<lparr>up_name = asc ''a.pdf'', up_data = []\<rparr>]" "asc ''basic''" "asc ''ch''"]
    workspace_removed [OF toy_workspace(2,3,4,6,6), of "\<lambda>p. None" "[]"
      "[\<lparr>up_name = asc ''a.pdf'', up_data = []\<rparr>]" "asc ''basic''" "asc ''ch''"]
  by (simp add: toy_workspace)

text \<open>
  C4 as stated fails when \<open>shutil.rmtree\<close> raises: after \<open>main\<close> has returned, the workspace
  still exists.
\<close>

theorem workspace_left_behind:
  "path_exists
     (fst (snd (main busy_world [] [\<lparr>up_name = asc ''a.pdf'', up_data = [97]\<rparr>] (\<lambda>p. None))))
     (asc ''/tmp/mineru_x'')"
  using workspace_after [OF toy_workspace(2,3,4,6,6), of "[]"
      "[\<lparr>up_name = asc ''a.pdf'', up_data = [97]\<rparr>]" "\<lambda>p. None"]
  by (simp add: toy_workspace)

section \<open>One corrupted file in a batch\<close>

lemma uploaded_state:
  assumes "write_error w (path_join input_dir (up_name f)) = None"
    and "makedirs_error w dir = None"
  shows "\<exists>s2. seq (write_file w (path_join input_dir (up_name f)) (up_data f)) (\<lambda>u.
              seq (makedirs w dir) g) s = g () s2 \<and>
           s2 (path_join input_dir (up_name f)) = Some (File (up_data f))"
  using assms
  by (auto simp: seq_def write_file_def makedirs_def split: prod.splits)

lemma file_valid:
  assumes "\<not> mineru_module w" "fitz_import w = None"
    and "fitz_open w (s pdf_path) = Inr (map Inr texts)" "getsize w (s pdf_path) = Inr sz"
  shows "\<exists>tr r. process_pdf_file w pdf_path output_dir config cb s = (tr, s, Inr r) \<and> success r"
  using basic_app_ok [where s = s and pdf_path = pdf_path, OF assms(2,3,4)]
    file_basic_ok [OF assms(1)] by blast

lemma process_files_results:
  assumes "\<forall>f\<in>set files. \<forall>s. \<exists>tr s' r. step f s = (tr, s', Inr r) \<and> Q f r"
  shows "\<exists>tr s' rs. process_files step files s = (tr, s', Inr rs) \<and> list_all2 Q files rs"
  using assms
proof (induction files arbitrary: s)
  case Nil
  then show ?case by (simp add: ret_def)
next
  case (Cons f files)
  from Cons.prems obtain tr s1 r where a: "step f s = (tr, s1, Inr r)" "Q f r"
    by (meson list.set_intros(1))
  from Cons.IH [of s1] Cons.prems obtain tr2 s2 rs where
    b: "process_files step files s1 = (tr2, s2, Inr rs)" "list_all2 Q files rs"
    by auto
  from a b show ?case by (simp add: seq_def ret_def)
qed

lemma batch_returns:
  assumes "mkdtemp w (asc ''mineru_'') = Inr d" and "\<forall>p. makedirs_error w p = None"
    and "\<forall>dirs s. \<exists>tr s' rs. body dirs s = (tr, s', Inr rs) \<and> P rs"
  shows "\<exists>tr s' rs. seq (create_temp_dirs w) (\<lambda>dirs.
            try_finally (body dirs) (cleanup_temp_dirs w (dirname (fst dirs)))) s =
              (tr, s', Inr rs) \<and> P rs"
proof -
  from create_temp_dirs_ok [OF assms(1)] assms(2) obtain s1 where
    c: "create_temp_dirs w s =
         ([], s1, Inr (path_join d (asc ''input''), path_join d (asc ''output'')))"
    by blast
  let ?dirs = "(path_join d (asc ''input''), path_join d (asc ''output''))"
  from assms(3) obtain tr s2 rs where b: "body ?dirs s1 = (tr, s2, Inr rs)" "P rs" by blast
  from cleanup_returns obtain ps s3 where
    "cleanup_temp_dirs w (dirname (fst ?dirs)) s2 = (ps, s3, Inr ())" by blast
  with c b show ?thesis by (simp add: seq_def try_finally_def)
qed

lemma one_false:
  assumes "k < length bs" "\<not> bs ! k" "\<forall>i<length bs. i \<noteq> k \<longrightarrow> bs ! i"
  shows "length (filter (\<lambda>b. b) bs) = length bs - 1 \<and> length (filter (\<lambda>b. \<not> b) bs) = 1"
proof -
  have "bs = replicate k True @ [False] @ replicate (length bs - k - 1) True"
    using assms by (intro nth_equalityI) (auto simp: nth_append nth_Cons split: nat.splits)
  then obtain n where "bs = replicate k True @ [False] @ replicate n True" by blast
  then show ?thesis by simp
qed

lemma readable_iff:
  "readable w f \<longleftrightarrow> (\<exists>texts. fitz_open w (Some (File (up_data f))) = Inr (map Inr texts))"
proof
  assume "readable w f"
  then obtain pages where p: "fitz_open w (Some (File (up_data f))) = Inr pages"
    "list_all (\<lambda>page. \<not> isl page) pages"
    by (auto simp: readable_def split: sum.splits)
  from p(2) have "pages = map Inr (map projr pages)"
    by (induction pages) (auto simp: isl_def)
  with p(1) show "\<exists>texts. fitz_open w (Some (File (up_data f))) = Inr (map Inr texts)" by metis
next
  assume "\<exists>texts. fitz_open w (Some (File (up_data f))) = Inr (map Inr texts)"
  then show "readable w f" by (auto simp: readable_def list_all_iff)
qed

lemma one_failure_by_kind:
  assumes "k < length files" "bad (files ! k)"
    and "\<forall>i<length files. i \<noteq> k \<longrightarrow> good (files ! i)"
    and "x = (tr, s', Inr rs)"
    and "list_all2 (\<lambda>f r. file_name r = Some (up_name f) \<and> (good f \<longrightarrow> success r) \<and>
            (bad f \<longrightarrow> \<not> success r \<and> error r \<noteq> None)) files rs"
  shows "one_failure k files x"
proof -
  from assms(5) have len: "length rs = length files" by (simp add: list_all2_lengthD)
  from assms(5) have each: "file_name (rs ! i) = Some (up_name (files ! i))"
      "good (files ! i) \<longrightarrow> success (rs ! i)"
      "bad (files ! i) \<longrightarrow> \<not> success (rs ! i) \<and> error (rs ! i) \<noteq> None" if "i < length files" for i
    using that by (auto dest: list_all2_nthD)
  have names: "map file_name rs = map (\<lambda>f. Some (up_name f)) files"
    using len each(1) by (intro nth_equalityI) simp_all
  from each(3) [OF assms(1)] assms(2) have k: "\<not> success (rs ! k)" "error (rs ! k) \<noteq> None"
    by auto
  let ?bs = "map success rs"
  have "length (filter (\<lambda>b. b) ?bs) = length ?bs - 1 \<and> length (filter (\<lambda>b. \<not> b) ?bs) = 1"
    using assms(1,3) k(1) each(2) len by (intro one_false [of k]) simp_all
  then have cnt: "length (filter success rs) = length files - 1"
      "length (filter (\<lambda>r. \<not> success r) rs) = 1"
    by (simp_all add: filter_map o_def len)
  with names k assms(4) show ?thesis by (simp add: one_failure_def)
qed

lemma file_success_basic:
  assumes "\<not> mineru_module w"
    and "process_pdf_file w pdf_path output_dir config cb s = (tr, s', Inr r)" and "success r"
  shows "process_pdf_basic w pdf_path output_dir config cb s = (tr, s', Inr r)"
  using assms
  by (auto simp: process_pdf_file_def try_except_def seq_def progress_callback_def ret_def
        failure_def split: prod.splits sum.splits)

lemma file_success_processor:
  assumes "mineru_module w"
    and "process_pdf_file w pdf_path output_dir config cb s = (tr, s', Inr r)" and "success r"
  shows "process_pdf w pdf_path output_dir
            (config_get config ''language'' (CStr (asc ''ch'')))
            (config_get config ''parse_method'' (CStr (asc ''auto'')))
            (config_get config ''formula_enable'' (CBool True))
            (config_get config ''table_enable'' (CBool True)) cb s = (tr, s', Inr r)"
  using assms
  by (auto simp: process_pdf_file_def try_except_def seq_def progress_callback_def ret_def
        failure_def split: prod.splits sum.splits)

lemma process_pdf_success:
  assumes "magic_pdf w"
    and "process_pdf w pdf_path output_dir language parse_method fe te cb s = (tr, s', Inr r)"
    and "success r"
  shows "\<exists>walk. do_parse w pdf_path output_dir parse_method
           (if language \<noteq> CStr (asc ''auto'') then language else CStr (asc ''ch'')) = Inr walk"
proof -
  from assms(2,3) have "seq (progress_callback cb (1 / 10) msg_init) (\<lambda>u.
        seq (makedirs w output_dir) (\<lambda>u.
        if \<not> magic_pdf w then create_demo_result w pdf_path output_dir cb
        else process_with_mineru w pdf_path output_dir language parse_method fe te cb)) s =
      (tr, s', Inr r)"
    by (auto simp: process_pdf_def try_except_def seq_def progress_callback_def ret_def
          failure_def split: prod.splits sum.splits)
  with assms(1) obtain t1 s1 where
    "process_with_mineru w pdf_path output_dir language parse_method fe te cb s1 = (t1, s', Inr r)"
    by (elim seqE) auto
  from mineru_outputs [OF this] show ?thesis by blast
qed

lemma uploaded_basic_step:
  assumes "\<not> mineru_module w" "fitz_import w = None"
    and "\<forall>p. write_error w p = None" "\<forall>p. makedirs_error w p = None"
    and "\<not> isl (getsize w (Some (File (up_data f))))"
  shows "\<exists>tr s' r. process_uploaded w config input_dir output_dir f s = (tr, s', Inr r) \<and>
           file_name r = Some (up_name f) \<and> (readable w f \<longrightarrow> success r) \<and>
           (\<not> readable w f \<longrightarrow> \<not> success r \<and> error r \<noteq> None)"
proof -
  let ?p = "path_join input_dir (up_name f)"
  let ?o = "path_join output_dir (path_stem (up_name f))"
  from uploaded_state [of w input_dir f ?o] assms(3,4)
  obtain s2 where
    run: "process_uploaded w config input_dir output_dir f s =
          seq (process_pdf_file w ?p ?o config True) (\<lambda>r. ret (r\<lparr>file_name := Some (up_name f)\<rparr>)) s2"
    and here: "s2 ?p = Some (File (up_data f))"
    unfolding process_uploaded_def Let_def by blast
  from process_pdf_file_returns obtain tr s3 r where
    r: "process_pdf_file w ?p ?o config True s2 = (tr, s3, Inr r)" by blast
  from process_pdf_file_failed [OF r] have e: "success r \<or> error r \<noteq> None"
    by (auto simp: ends_failed_def)
  have good: "success r" if "readable w f"
  proof -
    from that here obtain texts where "fitz_open w (s2 ?p) = Inr (map Inr texts)"
      by (auto simp: readable_iff)
    moreover from assms(5) here obtain sz where "getsize w (s2 ?p) = Inr sz"
      by (cases "getsize w (Some (File (up_data f)))") auto
    ultimately obtain tr' r' where
      "process_pdf_file w ?p ?o config True s2 = (tr', s2, Inr r')" "success r'"
      using file_valid [where s = s2 and pdf_path = ?p, OF assms(1,2)] by blast
    with r show ?thesis by simp
  qed
  have bad: "readable w f" if "success r"
    using basic_app_inv [OF file_success_basic [OF assms(1) r that]] here
    by (auto simp: readable_iff)
  from run r good bad e show ?thesis by (auto simp: seq_def ret_def)
qed

lemma api_down_none:
  assumes "api_down w config f" and "s pdf_path = Some (File (up_data f))"
  shows "\<exists>tr. call_mineru_api w pdf_path config cb s = (tr, s, Inr None)"
  using assms
  by (auto simp: api_down_def call_mineru_api_def io_defs
        split: option.splits api_response.splits sum.splits)

lemma uploaded_vercel_step:
  assumes "fitz_import w = None" and "\<forall>p. write_error w p = None"
    and "mode = asc ''api'' \<longrightarrow> api_down w config f"
  shows "\<exists>tr s' r. process_uploaded_vercel w mode config input_dir output_dir f s =
             (tr, s', Inr r) \<and>
           file_name r = Some (up_name f) \<and> (readable w f \<longrightarrow> success r) \<and>
           (\<not> readable w f \<longrightarrow> \<not> success r \<and> error r \<noteq> None)"
proof -
  let ?p = "path_join input_dir (up_name f)"
  let ?s = "s(?p \<mapsto> File (up_data f))"
  from basic_vercel_returns obtain tr s3 r where
    r: "process_pdf_basic_vercel w ?p output_dir config True ?s = (tr, s3, Inr r)" by blast
  from basic_vercel_failed [OF r] have e: "success r \<or> error r \<noteq> None"
    by (auto simp: ends_failed_def)
  have good: "success r" if "readable w f"
  proof -
    from that obtain texts where "fitz_open w (?s ?p) = Inr (map Inr texts)"
      by (auto simp: readable_iff)
    from basic_vercel_ok [where s = ?s and pdf_path = ?p, OF assms(1) this, of output_dir config True]
      r show ?thesis by auto
  qed
  have bad: "readable w f" if "success r"
    using basic_vercel_inv [OF r that] by (auto simp: readable_iff)
  have run: "\<exists>tr'. process_uploaded_vercel w mode config input_dir output_dir f s =
      (tr', s3, Inr (r\<lparr>file_name := Some (up_name f)\<rparr>))"
  proof (cases "mode = asc ''api''")
    case True
    with assms(3) have "api_down w config f" by simp
    from api_down_none [OF this, of ?s ?p True] obtain t0 where
      "call_mineru_api w ?p config True ?s = (t0, ?s, Inr None)" by auto
    with True r assms(2) show ?thesis
      by (simp add: process_uploaded_vercel_def Let_def seq_def write_file_def ret_def
            warning_def)
  next
    case False
    with r assms(2) show ?thesis
      by (simp add: process_uploaded_vercel_def Let_def seq_def write_file_def ret_def)
  qed
  with good bad e show ?thesis by auto
qed

lemma md_returns:
  "\<forall>e. markdown_lib w t \<noteq> MdRaised e \<Longrightarrow> \<exists>html. markdown_to_html w t s = ([], s, Inr html)"
  by (cases "markdown_lib w t") (simp_all add: markdown_to_html_def ret_def)

lemma mineru_output_ok:
  assumes "\<forall>p. write_error w p = None" and "\<forall>t e. markdown_lib w t \<noteq> MdRaised e"
    and "case fst (scan_walk walk) of None \<Rightarrow> True | Some p \<Rightarrow> \<not> isl (read_text w p)"
    and "case snd (scan_walk walk) of None \<Rightarrow> True | Some p \<Rightarrow> \<not> isl (json_load w p)"
  shows "\<exists>tr s' outs. process_mineru_output w walk output_dir pdf_path s = (tr, s', Inr outs)"
proof -
  have 1: "\<exists>outs1. (case fst (scan_walk walk) of
             Some f \<Rightarrow>
               seq (of_sum (read_text w f)) (\<lambda>markdown_content.
               ret [(''markdown_content'', markdown_content), (''markdown'', f)])
           | None \<Rightarrow> ret [(''markdown_content'', md_placeholder)]) s = ([], s, Inr outs1)" for s
    using assms(3)
    by (cases "fst (scan_walk walk)")
       (auto simp: seq_def of_sum_def ret_def isl_def split: sum.splits)
  have 2: "\<exists>outs2. (case snd (scan_walk walk) of
             Some f \<Rightarrow>
               seq (of_sum (json_load w f)) (\<lambda>json_data.
               ret [(''json_content'', json_dumps json_data), (''json'', f)])
           | None \<Rightarrow> ret [(''json_content'', json_placeholder)]) s = ([], s, Inr outs2)" for s
    using assms(4)
    by (cases "snd (scan_walk walk)")
       (auto simp: seq_def of_sum_def ret_def isl_def split: sum.splits)
  from 1 [of s] obtain outs1 where o1: "(case fst (scan_walk walk) of
             Some f \<Rightarrow>
               seq (of_sum (read_text w f)) (\<lambda>markdown_content.
               ret [(''markdown_content'', markdown_content), (''markdown'', f)])
           | None \<Rightarrow> ret [(''markdown_content'', md_placeholder)]) s = ([], s, Inr outs1)"
    by blast
  from 2 [of s] obtain outs2 where o2: "(case snd (scan_walk walk) of
             Some f \<Rightarrow>
               seq (of_sum (json_load w f)) (\<lambda>json_data.
               ret [(''json_content'', json_dumps json_data), (''json'', f)])
           | None \<Rightarrow> ret [(''json_content'', json_placeholder)]) s = ([], s, Inr outs2)"
    by blast
  from md_returns [of w "output_get (outs1 @ outs2) ''markdown_content''" s] assms(2)
  obtain html where
    h: "markdown_to_html w (output_get (outs1 @ outs2) ''markdown_content'') s = ([], s, Inr html)"
    by blast
  show ?thesis
    unfolding process_mineru_output_def Let_def
    using assms(1) by (simp add: seq_def [of _ _ s] o1 o2 h write_file_def ret_def seq_def)
qed

lemma with_mineru_ok:
  assumes "\<forall>p. write_error w p = None" and "\<forall>t e. markdown_lib w t \<noteq> MdRaised e"
    and "make_config_error w
           (if language \<noteq> CStr (asc ''auto'') then language else CStr (asc ''ch'')) = None"
    and "do_parse w pdf_path output_dir parse_method
           (if language \<noteq> CStr (asc ''auto'') then language else CStr (asc ''ch'')) = Inr walk"
    and "case fst (scan_walk walk) of None \<Rightarrow> True | Some p \<Rightarrow> \<not> isl (read_text w p)"
    and "case snd (scan_walk walk) of None \<Rightarrow> True | Some p \<Rightarrow> \<not> isl (json_load w p)"
  shows "\<exists>tr s' r. process_with_mineru w pdf_path output_dir language parse_method fe te cb s =
           (tr, s', Inr r) \<and> success r"
proof -
  from mineru_output_ok [OF assms(1,2,5,6), of output_dir pdf_path s] obtain tr s' outs where
    "process_mineru_output w walk output_dir pdf_path s = (tr, s', Inr outs)" by blast
  then show ?thesis
    using assms(3,4)
    by (simp add: process_with_mineru_def Let_def try_except_def seq_def progress_callback_def
          may_raise_def of_sum_def ret_def)
qed

lemma uploaded_engine_step:
  assumes "mineru_module w" "magic_pdf w"
    and "\<forall>p. write_error w p = None" "\<forall>p. makedirs_error w p = None"
    and "\<forall>t e. markdown_lib w t \<noteq> MdRaised e"
    and "make_config_error w (lang_of config) = None"
  shows "\<exists>tr s' r. process_uploaded w config (path_join d (asc ''input''))
             (path_join d (asc ''output'')) f s = (tr, s', Inr r) \<and>
           file_name r = Some (up_name f) \<and> (engine_works w config d f \<longrightarrow> success r) \<and>
           (engine_fails w config d f \<longrightarrow> \<not> success r \<and> error r \<noteq> None)"
proof -
  let ?p = "in_path d f"
  let ?o = "out_path d f"
  let ?l = "config_get config ''language'' (CStr (asc ''ch''))"
  let ?m = "config_get config ''parse_method'' (CStr (asc ''auto''))"
  let ?fe = "config_get config ''formula_enable'' (CBool True)"
  let ?te = "config_get config ''table_enable'' (CBool True)"
  have lang: "lang_of config = (if ?l \<noteq> CStr (asc ''auto'') then ?l else CStr (asc ''ch''))"
    by (simp add: lang_of_def Let_def)
  from uploaded_state [of w "path_join d (asc ''input'')" f ?o] assms(3,4)
  obtain s2 where
    run: "process_uploaded w config (path_join d (asc ''input'')) (path_join d (asc ''output'')) f s =
          seq (process_pdf_file w ?p ?o config True) (\<lambda>r. ret (r\<lparr>file_name := Some (up_name f)\<rparr>)) s2"
    unfolding process_uploaded_def Let_def in_path_def out_path_def by blast
  from process_pdf_file_returns obtain tr s3 r where
    r: "process_pdf_file w ?p ?o config True s2 = (tr, s3, Inr r)" by blast
  from process_pdf_file_failed [OF r] have e: "success r \<or> error r \<noteq> None"
    by (auto simp: ends_failed_def)
  have good: "success r" if "engine_works w config d f"
  proof -
    from that obtain walk where
      walk: "do_parse w ?p ?o ?m (if ?l \<noteq> CStr (asc ''auto'') then ?l else CStr (asc ''ch'')) =
        Inr walk"
      "case fst (scan_walk walk) of None \<Rightarrow> True | Some p \<Rightarrow> \<not> isl (read_text w p)"
      "case snd (scan_walk walk) of None \<Rightarrow> True | Some p \<Rightarrow> \<not> isl (json_load w p)"
      by (auto simp: engine_works_def engine_parse_def lang split: sum.splits)
    let ?s3 = "if s2 ?o = None then s2(?o \<mapsto> Dir) else s2"
    from with_mineru_ok [OF assms(3,5) assms(6) [unfolded lang] walk, of ?fe ?te True ?s3]
    obtain tr' s' r' where
      "process_with_mineru w ?p ?o ?l ?m ?fe ?te True ?s3 = (tr', s', Inr r')" "success r'"
      by blast
    with assms(1,2,4) have "\<exists>tr''. process_pdf_file w ?p ?o config True s2 = (tr'', s', Inr r')"
      by (simp add: process_pdf_file_def process_pdf_def try_except_def seq_def
            progress_callback_def makedirs_def)
    with r \<open>success r'\<close> show ?thesis by auto
  qed
  have bad: "\<not> engine_fails w config d f" if "success r"
    using process_pdf_success [OF assms(2) file_success_processor [OF assms(1) r that] that]
    by (auto simp: engine_fails_def engine_parse_def lang)
  from run r good bad e show ?thesis by (auto simp: seq_def ret_def)
qed

lemma uploaded_demo_step:
  assumes "mineru_module w" "\<not> magic_pdf w"
    and "\<forall>p. write_error w p = None" "\<forall>p. makedirs_error w p = None"
    and "\<forall>t e. markdown_lib w t \<noteq> MdRaised e"
  shows "\<exists>tr s' r. process_uploaded w config input_dir output_dir f s = (tr, s', Inr r) \<and>
           success r"
proof -
  let ?p = "path_join input_dir (up_name f)"
  let ?o = "path_join output_dir (path_stem (up_name f))"
  let ?md = "demo_md_pre @ path_stem ?p @ demo_md_post"
  from uploaded_state [of w input_dir f ?o] assms(3,4)
  obtain s2 where
    run: "process_uploaded w config input_dir output_dir f s =
          seq (process_pdf_file w ?p ?o config True) (\<lambda>r. ret (r\<lparr>file_name := Some (up_name f)\<rparr>)) s2"
    unfolding process_uploaded_def Let_def by blast
  have html: "\<exists>html. markdown_to_html w ?md s0 = ([], s0, Inr html)" for s0
    using md_returns [of w ?md s0] assms(5) by blast
  have "\<exists>tr s' r. create_demo_result w ?p ?o True s0 = (tr, s', Inr r) \<and> success r" for s0
  proof -
    let ?s1 = "s0(path_join ?o (path_stem ?p @ asc ''.md'') \<mapsto> File ?md)"
    from html [of ?s1] obtain h where "markdown_to_html w ?md ?s1 = ([], ?s1, Inr h)" by blast
    with assms(3) show ?thesis
      by (simp add: create_demo_result_def Let_def try_except_def seq_def progress_callback_def
            write_file_def ret_def)
  qed
  then obtain tr s' r where
    "create_demo_result w ?p ?o True (if s2 ?o = None then s2(?o \<mapsto> Dir) else s2) =
       (tr, s', Inr r)" "success r"
    by blast
  with assms(1,2,4) have "\<exists>tr'. process_pdf_file w ?p ?o config True s2 = (tr', s', Inr r)"
    by (simp add: process_pdf_file_def process_pdf_def try_except_def seq_def
          progress_callback_def makedirs_def)
  with run \<open>success r\<close> show ?thesis by (auto simp: seq_def ret_def)
qed

lemma batch_by_kind:
  assumes "mkdtemp w (asc ''mineru_'') = Inr d" and "\<forall>p. makedirs_error w p = None"
    and "k < length files" and "bad (files ! k)"
    and "\<forall>i<length files. i \<noteq> k \<longrightarrow> good (files ! i)"
    and "\<forall>f\<in>set files. \<forall>s. \<exists>tr s' r.
           step (path_join d (asc ''input'')) (path_join d (asc ''output'')) f s =
             (tr, s', Inr r) \<and>
           file_name r = Some (up_name f) \<and> (good f \<longrightarrow> success r) \<and>
           (bad f \<longrightarrow> \<not> success r \<and> error r \<noteq> None)"
  shows "one_failure k files
           (seq (create_temp_dirs w) (\<lambda>dirs.
              try_finally (process_files (step (fst dirs) (snd dirs)) files)
                (cleanup_temp_dirs w (dirname (fst dirs)))) s)"
proof -
  let ?Q = "\<lambda>f r. file_name r = Some (up_name f) \<and> (good f \<longrightarrow> success r) \<and>
            (bad f \<longrightarrow> \<not> success r \<and> error r \<noteq> None)"
  let ?dirs = "(path_join d (asc ''input''), path_join d (asc ''output''))"
  from create_temp_dirs_ok [OF assms(1)] assms(2) obtain s1 where
    c: "create_temp_dirs w s = ([], s1, Inr ?dirs)" by blast
  from process_files_results [of files "step (fst ?dirs) (snd ?dirs)" ?Q s1] assms(6)
  obtain tr s2 rs where
    b: "process_files (step (fst ?dirs) (snd ?dirs)) files s1 = (tr, s2, Inr rs)"
      "list_all2 ?Q files rs"
    by auto
  from cleanup_returns obtain ps s3 where
    "cleanup_temp_dirs w (dirname (fst ?dirs)) s2 = (ps, s3, Inr ())" by blast
  with c b(1) have "seq (create_temp_dirs w) (\<lambda>dirs.
              try_finally (process_files (step (fst dirs) (snd dirs)) files)
                (cleanup_temp_dirs w (dirname (fst dirs)))) s = (tr @ ps, s3, Inr rs)"
    by (simp add: seq_def try_finally_def)
  from one_failure_by_kind [OF assms(3,4,5) this b(2)] show ?thesis .
qed

text \<open>
  C5, as the code has it. Let the workspace be created and the uploads be saved. A batch of
  \<open>N\<close> files in which the file at index \<open>k\<close> fails and every other file is good returns \<open>N\<close>
  results, one per file and in upload order; \<open>N - 1\<close> of them have \<open>success = True\<close>, exactly
  one has \<open>success = False\<close>, and that one is the result of file \<open>k\<close> and carries an error
  message. This holds on every branch where a file can fail: in the basic branch of app.py
  and in streamlit_app_vercel.py, in its basic mode and in its API mode when the service is
  down, a file fails when PyMuPDF cannot open it or cannot load one of its pages, and is good
  when PyMuPDF reads it; in the advanced branch of app.py a file fails when the layout engine
  raises on it, and is good when the engine works on it. The index \<open>k\<close> counts from 0 and may
  be any position of the batch. On the demonstration branch of app.py no file is opened, and
  every result has \<open>success = True\<close>.
\<close>

theorem one_corrupted_file:
  assumes "mkdtemp w (asc ''mineru_'') = Inr d"
    and "\<forall>p. makedirs_error w p = None" and "\<forall>p. write_error w p = None"
    and "k < length files"
  shows
    "(\<not> mineru_module w \<and> fitz_import w = None \<and>
      (\<forall>f\<in>set files. \<not> isl (getsize w (Some (File (up_data f))))) \<and>
      \<not> readable w (files ! k) \<and> (\<forall>i<length files. i \<noteq> k \<longrightarrow> readable w (files ! i)) \<longrightarrow>
        one_failure k files (main w config files s)) \<and>
     (mineru_module w \<and> magic_pdf w \<and> make_config_error w (lang_of config) = None \<and>
      (\<forall>t e. markdown_lib w t \<noteq> MdRaised e) \<and>
      engine_fails w config d (files ! k) \<and>
      (\<forall>i<length files. i \<noteq> k \<longrightarrow> engine_works w config d (files ! i)) \<longrightarrow>
        one_failure k files (main w config files s)) \<and>
     (fitz_import w = None \<and>
      (processing_mode = asc ''api'' \<longrightarrow>
         (\<forall>f\<in>set files. api_down w
            [(''language'', CStr language), (''processing_mode'', CStr processing_mode)] f)) \<and>
      \<not> readable w (files ! k) \<and> (\<forall>i<length files. i \<noteq> k \<longrightarrow> readable w (files ! i)) \<longrightarrow>
        one_failure k files (main_vercel w language processing_mode files s)) \<and>
     (mineru_module w \<and> \<not> magic_pdf w \<and> (\<forall>t e. markdown_lib w t \<noteq> MdRaised e) \<longrightarrow>
        successes (main w config files s) = replicate (length files) True)"
proof -
  have m1: "main w config files s =
      seq (create_temp_dirs w) (\<lambda>dirs.
        try_finally (process_files (process_uploaded w config (fst dirs) (snd dirs)) files)
          (cleanup_temp_dirs w (dirname (fst dirs)))) s"
    by (simp add: main_def Let_def)
  let ?c = "[(''language'', CStr language), (''processing_mode'', CStr processing_mode)]"
  have m2: "main_vercel w language processing_mode files s =
      seq (create_temp_dirs w) (\<lambda>dirs.
        try_finally (process_files
            (process_uploaded_vercel w processing_mode ?c (fst dirs) (snd dirs)) files)
          (cleanup_temp_dirs w (dirname (fst dirs)))) s"
    by (simp add: main_vercel_def Let_def)
  have a: "one_failure k files (main w config files s)"
    if "\<not> mineru_module w" "fitz_import w = None"
      "\<forall>f\<in>set files. \<not> isl (getsize w (Some (File (up_data f))))"
      "\<not> readable w (files ! k)" "\<forall>i<length files. i \<noteq> k \<longrightarrow> readable w (files ! i)"
    unfolding m1
    by (rule batch_by_kind [OF assms(1,2,4), of "\<lambda>f. \<not> readable w f" "readable w"])
       (use that uploaded_basic_step [OF that(1,2) assms(3,2)] in auto)
  have b: "one_failure k files (main w config files s)"
    if "mineru_module w" "magic_pdf w" "make_config_error w (lang_of config) = None"
      "\<forall>t e. markdown_lib w t \<noteq> MdRaised e" "engine_fails w config d (files ! k)"
      "\<forall>i<length files. i \<noteq> k \<longrightarrow> engine_works w config d (files ! i)"
    unfolding m1
    by (rule batch_by_kind [OF assms(1,2,4), of "engine_fails w config d" "engine_works w config d"])
       (use that uploaded_engine_step [OF that(1,2) assms(3,2) that(4,3)] in auto)
  have c: "one_failure k files (main_vercel w language processing_mode files s)"
    if "fitz_import w = None"
      "processing_mode = asc ''api'' \<longrightarrow> (\<forall>f\<in>set files. api_down w ?c f)"
      "\<not> readable w (files ! k)" "\<forall>i<length files. i \<noteq> k \<longrightarrow> readable w (files ! i)"
    unfolding m2
    by (rule batch_by_kind [OF assms(1,2,4), of "\<lambda>f. \<not> readable w f" "readable w"])
       (use that uploaded_vercel_step [OF that(1) assms(3)] in auto)
  have d: "successes (main w config files s) = replicate (length files) True"
    if "mineru_module w" "\<not> magic_pdf w" "\<forall>t e. markdown_lib w t \<noteq> MdRaised e"
  proof -
    have "\<forall>dirs s. \<exists>tr s' rs.
        process_files (process_uploaded w config (fst dirs) (snd dirs)) files s =
          (tr, s', Inr rs) \<and> list_all2 (\<lambda>f r. success r) files rs"
      using process_files_results [of files _ "\<lambda>f r. success r"]
        uploaded_demo_step [OF that(1,2) assms(3,2) that(3)] by blast
    from batch_returns [OF assms(1,2) this, of s] obtain tr s' rs where
      r: "main w config files s = (tr, s', Inr rs)" "list_all2 (\<lambda>f r. success r) files rs"
      unfolding m1 by blast
    from r(2) have "map success rs = replicate (length files) True"
      by (induction files rs rule: list_all2_induct) simp_all
    with r(1) show ?thesis by (simp add: successes_def the_result_def)
  qed
  from a b c d show ?thesis by blast
qed

lemma in_paths:
  "in_path (asc ''/tmp/mineru_x'') \<lparr>up_name = asc ''a.pdf'', up_data = x\<rparr> =
     asc ''/tmp/mineru_x/input/a.pdf''"
  "in_path (asc ''/tmp/mineru_x'') \<lparr>up_name = asc ''b.pdf'', up_data = y\<rparr> =
     asc ''/tmp/mineru_x/input/b.pdf''"
  "in_path (asc ''/tmp/mineru_x'') \<lparr>up_name = asc ''c.pdf'', up_data = z\<rparr> =
     asc ''/tmp/mineru_x/input/c.pdf''"
  by (simp_all add: in_path_def path_join_def asc_simps slash_def suffix_def)

lemma small_worlds:
  "mkdtemp torn_world (asc ''mineru_'') = Inr (asc ''/tmp/mineru_x'')"
  "mkdtemp engine_world (asc ''mineru_'') = Inr (asc ''/tmp/mineru_x'')"
  "mkdtemp (with_api resp) (asc ''mineru_'') = Inr (asc ''/tmp/mineru_x'')"
  "makedirs_error torn_world p = None" "makedirs_error engine_world p = None"
  "makedirs_error (with_api resp) p = None"
  "write_error toy_world p = None" "write_error torn_world p = None"
  "write_error engine_world p = None" "write_error (with_api resp) p = None"
  by (simp_all add: toy_world_def torn_world_def engine_world_def with_api_def asc_simps)

lemma engine_parses:
  "engine_parse engine_world [] (asc ''/tmp/mineru_x'') \<lparr>up_name = asc ''a.pdf'', up_data = x\<rparr> =
     Inr []"
  "engine_parse engine_world [] (asc ''/tmp/mineru_x'') \<lparr>up_name = asc ''b.pdf'', up_data = y\<rparr> =
     Inl (asc ''cannot parse'')"
  "engine_parse engine_world [] (asc ''/tmp/mineru_x'') \<lparr>up_name = asc ''c.pdf'', up_data = z\<rparr> =
     Inr []"
  unfolding engine_parse_def in_paths engine_world_def by (simp_all add: asc_simps)

text \<open>
  Three uploads of which the second one fails: it cannot be opened, in the basic branch of
  app.py; its second page cannot be loaded, in the basic mode of streamlit_app_vercel.py; the
  engine raises on it, in the advanced branch of app.py; it cannot be opened, in the API mode
  with a service that answers 500.
\<close>

theorem one_corrupted_file_witness:
  "one_failure 1
     [\<lparr>up_name = asc ''a.pdf'', up_data = [97]\<rparr>, \<lparr>up_name = asc ''b.pdf'', up_data = []\<rparr>,
      \<lparr>up_name = asc ''c.pdf'', up_data = [98, 32]\<rparr>]
     (main toy_world []
        [\<lparr>up_name = asc ''a.pdf'', up_data = [97]\<rparr>, \<lparr>up_name = asc ''b.pdf'', up_data = []\<rparr>,
         \<lparr>up_name = asc ''c.pdf'', up_data = [98, 32]\<rparr>] (\<lambda>p. None)) \<and>
   one_failure 1
     [\<lparr>up_name = asc ''a.pdf'', up_data = [97]\<rparr>, \<lparr>up_name = asc ''b.pdf'', up_data = [98, 0]\<rparr>,
      \<lparr>up_name = asc ''c.pdf'', up_data = [99]\<rparr>]
     (main_vercel torn_world (asc ''ch'') (asc ''basic'')
        [\<lparr>up_name = asc ''a.pdf'', up_data = [97]\<rparr>, \<lparr>up_name = asc ''b.pdf'', up_data = [98, 0]\<rparr>,
         \<lparr>up_name = asc ''c.pdf'', up_data = [99]\<rparr>] (\<lambda>p. None)) \<and>
   one_failure 1
     [\<lparr>up_name = asc ''a.pdf'', up_data = [97]\<rparr>, \<lparr>up_name = asc ''b.pdf'', up_data = [98]\<rparr>,
      \<lparr>up_name = asc ''c.pdf'', up_data = [99]\<rparr>]
     (main engine_world []
        [\<lparr>up_name = asc ''a.pdf'', up_data = [97]\<rparr>, \<lparr>up_name = asc ''b.pdf'', up_data = [98]\<rparr>,
         \<lparr>up_name = asc ''c.pdf'', up_data = [99]\<rparr>] (\<lambda>p. None)) \<and>
   one_failure 1
     [\<lparr>up_name = asc ''a.pdf'', up_data = [97]\<rparr>, \<lparr>up_name = asc ''b.pdf'', up_data = []\<rparr>,
      \<lparr>up_name = asc ''c.pdf'', up_data = [98, 32]\<rparr>]
     (main_vercel (with_api (Response 500 (Inl []))) (asc ''ch'') (asc ''api'')
        [\<lparr>up_name = asc ''a.pdf'', up_data = [97]\<rparr>, \<lparr>up_name = asc ''b.pdf'', up_data = []\<rparr>,
         \<lparr>up_name = asc ''c.pdf'', up_data = [98, 32]\<rparr>] (\<lambda>p. None))"
proof -
  let ?d = "asc ''/tmp/mineru_x''"
  let ?f1 = "[\<lparr>up_name = asc ''a.pdf'', up_data = [97]\<rparr>, \<lparr>up_name = asc ''b.pdf'', up_data = []\<rparr>,
      \<lparr>up_name = asc ''c.pdf'', up_data = [98, 32]\<rparr>]"
  let ?f2 = "[\<lparr>up_name = asc ''a.pdf'', up_data = [97]\<rparr>, \<lparr>up_name = asc ''b.pdf'', up_data = [98, 0]\<rparr>,
      \<lparr>up_name = asc ''c.pdf'', up_data = [99]\<rparr>]"
  let ?f3 = "[\<lparr>up_name = asc ''a.pdf'', up_data = [97]\<rparr>, \<lparr>up_name = asc ''b.pdf'', up_data = [98]\<rparr>,
      \<lparr>up_name = asc ''c.pdf'', up_data = [99]\<rparr>]"
  let ?api = "with_api (Response 500 (Inl []))"
  have three: "(\<forall>i<length [x, y, z]. i \<noteq> 1 \<longrightarrow> P ([x, y, z] ! i)) = (P x \<and> P z)"
    for x y z :: uploaded_file and P
    by (auto simp: less_Suc_eq numeral_3_eq_3)
  have A: "\<not> mineru_module toy_world \<and> fitz_import toy_world = None \<and>
      (\<forall>f\<in>set ?f1. \<not> isl (getsize toy_world (Some (File (up_data f))))) \<and>
      \<not> readable toy_world (?f1 ! 1) \<and>
      (\<forall>i<length ?f1. i \<noteq> 1 \<longrightarrow> readable toy_world (?f1 ! i))"
    unfolding three by (simp add: readable_def toy_world_def)
  have B: "fitz_import torn_world = None \<and>
      (asc ''basic'' = asc ''api'' \<longrightarrow> (\<forall>f\<in>set ?f2. api_down torn_world
         [(''language'', CStr (asc ''ch'')), (''processing_mode'', CStr (asc ''basic''))] f)) \<and>
      \<not> readable torn_world (?f2 ! 1) \<and>
      (\<forall>i<length ?f2. i \<noteq> 1 \<longrightarrow> readable torn_world (?f2 ! i))"
    unfolding three by (simp add: readable_def torn_world_def toy_world_def asc_simps)
  have C: "mineru_module engine_world \<and> magic_pdf engine_world \<and>
      make_config_error engine_world (lang_of []) = None \<and>
      (\<forall>t e. markdown_lib engine_world t \<noteq> MdRaised e) \<and>
      engine_fails engine_world [] ?d (?f3 ! 1) \<and>
      (\<forall>i<length ?f3. i \<noteq> 1 \<longrightarrow> engine_works engine_world [] ?d (?f3 ! i))"
    unfolding three
    by (simp add: engine_fails_def engine_works_def engine_parses scan_walk_def)
       (simp add: engine_world_def toy_world_def)
  have D: "fitz_import ?api = None \<and>
      (asc ''api'' = asc ''api'' \<longrightarrow> (\<forall>f\<in>set ?f1. api_down ?api
         [(''language'', CStr (asc ''ch'')), (''processing_mode'', CStr (asc ''api''))] f)) \<and>
      \<not> readable ?api (?f1 ! 1) \<and>
      (\<forall>i<length ?f1. i \<noteq> 1 \<longrightarrow> readable ?api (?f1 ! i))"
    unfolding three
    by (simp add: readable_def api_down_def with_api_def toy_world_def)
  have k: "1 < length ?f1" "1 < length ?f2" "1 < length ?f3" by simp_all
  have mk: "\<forall>p. makedirs_error toy_world p = None" "\<forall>p. makedirs_error torn_world p = None"
    "\<forall>p. makedirs_error engine_world p = None" "\<forall>p. makedirs_error ?api p = None"
    by (simp_all add: toy_workspace small_worlds)
  have wr: "\<forall>p. write_error toy_world p = None" "\<forall>p. write_error torn_world p = None"
    "\<forall>p. write_error engine_world p = None" "\<forall>p. write_error ?api p = None"
    by (simp_all add: small_worlds)
  note a = one_corrupted_file [where w = toy_world and d = ?d and k = 1 and files = ?f1 and
      config = "[]" and s = "\<lambda>p. None" and processing_mode = "asc ''basic''" and
      language = "asc ''ch''", OF toy_workspace(1) mk(1) wr(1) k(1)]
  note b = one_corrupted_file [where w = torn_world and d = ?d and k = 1 and files = ?f2 and
      config = "[]" and s = "\<lambda>p. None" and processing_mode = "asc ''basic''" and
      language = "asc ''ch''", OF small_worlds(1) mk(2) wr(2) k(2)]
  note c = one_corrupted_file [where w = engine_world and d = ?d and k = 1 and files = ?f3 and
      config = "[]" and s = "\<lambda>p. None" and processing_mode = "asc ''basic''" and
      language = "asc ''ch''", OF small_worlds(2) mk(3) wr(3) k(3)]
  note d = one_corrupted_file [where w = ?api and d = ?d and k = 1 and files = ?f1 and
      config = "[]" and s = "\<lambda>p. None" and processing_mode = "asc ''api''" and
      language = "asc ''ch''", OF small_worlds(3) mk(4) wr(4) k(1)]
  from a A have 1: "one_failure 1 ?f1 (main toy_world [] ?f1 (\<lambda>p. None))" by blast
  from b B have 2: "one_failure 1 ?f2 (main_vercel torn_world (asc ''ch'') (asc ''basic'') ?f2
      (\<lambda>p. None))"
    by blast
  from c C have 3: "one_failure 1 ?f3 (main engine_world [] ?f3 (\<lambda>p. None))" by blast
  from d D have 4: "one_failure 1 ?f1 (main_vercel ?api (asc ''ch'') (asc ''api'') ?f1 (\<lambda>p. None))"
    by blast
  from 1 2 3 4 show ?thesis by blast
qed

lemma uploaded_demo:
  "\<exists>tr s' r. process_uploaded demo_world config input_dir output_dir f s = (tr, s', Inr r) \<and>
     success r"
  by (simp add: process_uploaded_def process_pdf_file_def process_pdf_def create_demo_result_def
        io_defs write_file_def makedirs_def markdown_to_html_def demo_world_def toy_world_def
        Let_def split: prod.splits)

text \<open>
  C5 as stated fails on the demonstration branch of \<open>app.py\<close> (processor module importable, engine
  missing): the uploaded file is saved and never opened, so a batch whose second file PyMuPDF
  cannot open comes back with two results of \<open>success = True\<close>.
\<close>

theorem corrupted_file_in_demo_mode:
  "fitz_open demo_world (Some (File [])) = Inl (asc ''cannot open broken document'') \<and>
   successes (main demo_world []
     [\<lparr>up_name = asc ''a.pdf'', up_data = [97]\<rparr>, \<lparr>up_name = asc ''b.pdf'', up_data = []\<rparr>]
     (\<lambda>p. None)) = [True, True]"
proof -
  let ?files = "[\<lparr>up_name = asc ''a.pdf'', up_data = [97]\<rparr>,
    \<lparr>up_name = asc ''b.pdf'', up_data = []\<rparr>]"
  have "\<forall>dirs s. \<exists>tr s' rs.
      process_files (process_uploaded demo_world [] (fst dirs) (snd dirs)) ?files s =
        (tr, s', Inr rs) \<and> list_all2 (\<lambda>f r. success r) ?files rs"
    using process_files_results [of ?files _ "\<lambda>f r. success r"] uploaded_demo by blast
  moreover have "mkdtemp demo_world (asc ''mineru_'') = Inr (asc ''/tmp/mineru_x'')"
    "\<forall>p. makedirs_error demo_world p = None"
    by (simp_all add: demo_world_def toy_world_def asc_simps)
  ultimately obtain tr s' rs where
    "main demo_world [] ?files (\<lambda>p. None) = (tr, s', Inr rs)"
    "list_all2 (\<lambda>f r. success r) ?files rs"
    using batch_returns [of demo_world "asc ''/tmp/mineru_x''"
        "\<lambda>dirs. process_files (process_uploaded demo_world [] (fst dirs) (snd dirs)) ?files"
        "\<lambda>rs. list_all2 (\<lambda>f r. success r) ?files rs" "\<lambda>p. None"]
    unfolding main_def Let_def by blast
  then have "successes (main demo_world [] ?files (\<lambda>p. None)) = [True, True]"
    by (auto simp: successes_def the_result_def list_all2_Cons1)
  moreover have "fitz_open demo_world (Some (File [])) = Inl (asc ''cannot open broken document'')"
    by (simp add: demo_world_def toy_world_def)
  ultimately show ?thesis by simp
qed

section \<open>The conversion of Markdown to text\<close>

lemma heading_start: "c \<noteq> hash \<Longrightarrow> m_heading (c # cs) = None"
  by (simp add: m_heading_def)

lemma delim_start: "c \<noteq> d \<Longrightarrow> m_delim (d # op) cl keep (c # cs) = None"
  by (simp add: m_delim_def)

lemma link_start: "c \<noteq> lbr \<Longrightarrow> m_link (c # cs) = None"
  by (simp add: m_link_def)



lemma heading_id: "hash \<notin> set xs \<Longrightarrow> re_sub m_heading xs = xs"
  by (induction xs) (simp_all add: heading_start)

lemma link_id: "lbr \<notin> set xs \<Longrightarrow> re_sub m_link xs = xs"
  by (induction xs) (simp_all add: link_start)

lemma lazy_none: "once d True xs \<Longrightarrow> d \<noteq> nl \<Longrightarrow> lazy_dot (lit [d]) xs = None"
  by (induction xs) (auto simp: lit_def split: if_splits)

lemma delim_id: "once d b xs \<Longrightarrow> d \<noteq> nl \<Longrightarrow> re_sub (m_delim [d] [d] keep) xs = xs"
proof (induction xs arbitrary: b)
  case Nil
  then show ?case by simp
next
  case (Cons c cs)
  show ?case
  proof (cases "c = d")
    case True
    with Cons.prems have "\<not> b" "once d True cs" by (auto split: if_splits)
    with Cons.prems(2) have "lazy_dot (lit [d]) cs = None" by (simp add: lazy_none)
    then have "m_delim [d] [d] keep (c # cs) = None" using True by (simp add: m_delim_def)
    with Cons.IH [OF \<open>once d True cs\<close> Cons.prems(2)] show ?thesis by simp
  next
    case False
    then have "m_delim [d] [d] keep (c # cs) = None" by (simp add: delim_start)
    moreover from False Cons.prems obtain b' where "once d b' cs" by (auto split: if_splits)
    ultimately show ?thesis using Cons.IH Cons.prems(2) by simp
  qed
qed

lemma bold_id: "once star b xs \<Longrightarrow> re_sub m_bold xs = xs"
proof (induction xs arbitrary: b)
  case Nil
  then show ?case by simp
next
  case (Cons c cs)
  have star: "star \<noteq> nl" by (simp add: star_def nl_def)
  have "\<not> prefix [star, star] (c # cs)"
    using Cons.prems star by (cases cs) (auto split: if_splits)
  then have "m_bold (c # cs) = None" by (auto simp: m_bold_def m_delim_def)
  moreover from Cons.prems obtain b' where "once star b' cs" by (auto split: if_splits)
  ultimately show ?case using Cons.IH by simp
qed

lemma norun_takeWhile: "norun d n xs \<Longrightarrow> length (takeWhile (\<lambda>x. x = d) xs) \<le> 2 - n"
  by (induction xs arbitrary: n) (fastforce split: if_splits)+

lemma run_id: "norun d n xs \<Longrightarrow> re_sub (m_run d r) xs = xs"
proof (induction xs arbitrary: n)
  case Nil
  then show ?case by simp
next
  case (Cons c cs)
  from norun_takeWhile [OF Cons.prems] have "m_run d r (c # cs) = None"
    by (auto simp: m_run_def split: if_splits)
  moreover from Cons.prems obtain n' where "norun d n' cs" by (auto split: if_splits)
  ultimately show ?case using Cons.IH by simp
qed

lemma rev_dropWhile_rev: "ys = rev (dropWhile P (rev ys)) @ rev (takeWhile P (rev ys))"
  by (metis rev_append rev_rev_ident takeWhile_dropWhile_id)

lemma strip_sublist: "\<exists>ps ss. xs = ps @ strip xs @ ss"
proof -
  define ys where "ys = dropWhile is_space xs"
  have "xs = takeWhile is_space xs @ ys" by (simp add: ys_def)
  moreover have "ys = strip xs @ rev (takeWhile is_space (rev ys))"
    unfolding strip_def ys_def [symmetric] by (rule rev_dropWhile_rev)
  ultimately show ?thesis by metis
qed

lemma strip_front: "dropWhile is_space (strip xs) = strip xs"
proof -
  define ys where "ys = dropWhile is_space xs"
  define t where "t = rev (dropWhile is_space (rev ys))"
  have t: "strip xs = t" by (simp add: strip_def t_def ys_def)
  have "dropWhile is_space t = t"
  proof (cases t)
    case Nil
    then show ?thesis by simp
  next
    case (Cons a t')
    then have ne: "dropWhile is_space (rev ys) \<noteq> []" by (auto simp: t_def)
    then have ys: "ys \<noteq> []" by auto
    then have "\<not> is_space (hd ys)" unfolding ys_def by (rule hd_dropWhile)
    moreover have "hd t = hd ys"
    proof -
      have "hd t = last (dropWhile is_space (rev ys))" using ne by (simp add: t_def hd_rev)
      also have "\<dots> = last (rev ys)"
        using ne by (metis last_appendR takeWhile_dropWhile_id)
      also have "\<dots> = hd ys" using ys by (simp add: last_rev)
      finally show ?thesis .
    qed
    ultimately show ?thesis using Cons by simp
  qed
  then show ?thesis by (simp only: t)
qed

lemma strip_strip: "strip (strip xs) = strip xs"
proof -
  have "strip (strip xs) = rev (dropWhile is_space (rev (strip xs)))"
    by (simp add: strip_def [of "strip xs"] strip_front)
  also have "rev (strip xs) = dropWhile is_space (rev (dropWhile is_space xs))"
    by (simp add: strip_def)
  finally show ?thesis by (simp add: strip_def)
qed

lemma set_strip: "set (strip xs) \<subseteq> set xs"
  using strip_sublist [of xs] by (metis Un_upper1 Un_upper2 set_append subset_trans)

lemma heading_nohash: "hash \<notin> set (re_sub m_heading xs)"
proof (induction m_heading xs rule: re_sub.induct)
  case 1
  then show ?case by simp
next
  case (2 c cs)
  show ?case
  proof (cases "m_heading (c # cs)")
    case None
    then have "c \<noteq> hash" by (auto simp: m_heading_def Let_def split: if_splits)
    with None 2(1) show ?thesis by simp
  next
    case (Some a)
    obtain r n where a: "a = (r, n)" by (cases a)
    with Some have "r = []" by (auto simp: m_heading_def Let_def split: if_splits)
    with Some a 2(2) show ?thesis by simp
  qed
qed

lemma once_plain: "d \<notin> set g \<Longrightarrow> nl \<notin> set g \<Longrightarrow> once d b (g @ ys) = once d b ys"
  by (induction g) auto

lemma lazy_dot_Some:
  "lazy_dot k s = Some (g, n) \<Longrightarrow> g \<le> length s \<and> nl \<notin> set (take g s) \<and> k (drop g s) = Some n"
proof (induction k s arbitrary: g n rule: lazy_dot.induct)
  case (1 k)
  then show ?case by (auto split: option.splits)
next
  case (2 k c cs)
  show ?case
  proof (cases "k (c # cs)")
    case (Some a)
    with 2(2) show ?thesis by simp
  next
    case None
    with 2(2) obtain g' where "c \<noteq> nl" "lazy_dot k cs = Some (g', n)" "g = Suc g'"
      by (auto split: if_splits option.splits)
    with 2(1) [OF None, of g' n] show ?thesis by simp
  qed
qed

lemma lazy_dot_first:
  "lazy_dot k s = Some (g, n) \<Longrightarrow> i < g \<Longrightarrow> k (drop i s) = None"
proof (induction k s arbitrary: g n i rule: lazy_dot.induct)
  case (1 k)
  then show ?case by (auto split: option.splits)
next
  case (2 k c cs)
  show ?case
  proof (cases "k (c # cs)")
    case (Some a)
    with 2(2,3) show ?thesis by simp
  next
    case None
    with 2(2) obtain g' where g: "c \<noteq> nl" "lazy_dot k cs = Some (g', n)" "g = Suc g'"
      by (auto split: if_splits option.splits)
    show ?thesis
    proof (cases i)
      case 0
      with None show ?thesis by simp
    next
      case (Suc j)
      with 2(1) [OF None _ g(2), of j] g(1,3) 2(3) show ?thesis by simp
    qed
  qed
qed

lemma lit_Some: "lit d s = Some n \<Longrightarrow> n = length d \<and> prefix d s"
  by (auto simp: lit_def split: if_splits)

lemma lazy_lit_None:
  "lazy_dot (lit [d]) cs = None \<Longrightarrow> d \<notin> set (takeWhile (\<lambda>c. c \<noteq> nl) cs)"
  by (induction cs) (auto simp: lit_def split: if_splits option.splits)

lemma delim_match:
  assumes "m_delim [d] [d] keep (c # cs) = Some (r, n)"
  shows "\<exists>g. c = d \<and> g < length cs \<and> cs ! g = d \<and> d \<notin> set (take g cs) \<and>
           nl \<notin> set (take g cs) \<and> r = (if keep then take g cs else []) \<and> n = g + 2"
proof -
  from assms obtain g n' where c: "c = d" and l: "lazy_dot (lit [d]) cs = Some (g, n')"
    and r: "r = (if keep then take g cs else [])" and n: "n = 1 + g + n'"
    by (auto simp: m_delim_def split: if_splits option.splits)
  from lazy_dot_Some [OF l] have g: "g \<le> length cs" "nl \<notin> set (take g cs)"
    and "lit [d] (drop g cs) = Some n'" by simp_all
  then have n': "n' = 1" and p: "prefix [d] (drop g cs)" by (auto dest: lit_Some)
  from p g(1) have at: "g < length cs" "cs ! g = d"
    by (auto simp: prefix_def) (metis Cons_nth_drop_Suc drop_all le_neq_implies_less list.discI
        list.inject not_le nth_via_drop)+
  have "d \<notin> set (take g cs)"
  proof
    assume "d \<in> set (take g cs)"
    then obtain i where i: "i < g" "i < length cs" "cs ! i = d"
      by (auto simp: in_set_conv_nth)
    from lazy_dot_first [OF l i(1)] have "lit [d] (drop i cs) = None" .
    moreover from i(2,3) have "prefix [d] (drop i cs)"
      by (metis Cons_nth_drop_Suc Cons_prefix_Cons Nil_prefix)
    ultimately show False by (simp add: lit_def)
  qed
  with c at g r n n' show ?thesis by simp
qed

lemma delim_once:
  "d \<noteq> nl \<Longrightarrow> (b \<longrightarrow> d \<notin> set (takeWhile (\<lambda>c. c \<noteq> nl) xs)) \<Longrightarrow>
     once d b (re_sub (m_delim [d] [d] keep) xs)"
proof (induction "m_delim [d] [d] keep" xs arbitrary: b rule: re_sub.induct)
  case 1
  then show ?case by simp
next
  case (2 c cs)
  show ?case
  proof (cases "m_delim [d] [d] keep (c # cs)")
    case None
    show ?thesis
    proof (cases "c = d")
      case True
      with None have "lazy_dot (lit [d]) cs = None"
        by (auto simp: m_delim_def split: option.splits prod.splits)
      then have "d \<notin> set (takeWhile (\<lambda>c. c \<noteq> nl) cs)" by (rule lazy_lit_None)
      with 2(1) [OF None 2(3), of True] have "once d True (re_sub (m_delim [d] [d] keep) cs)"
        by simp
      moreover from True 2(3,4) have "\<not> b" by auto
      ultimately show ?thesis using None True 2(3) by simp
    next
      case False
      show ?thesis
      proof (cases "c = nl")
        case True
        with 2(1) [OF None 2(3), of False] None show ?thesis by simp
      next
        case nnl: False
        with 2(4) False have "b \<longrightarrow> d \<notin> set (takeWhile (\<lambda>c. c \<noteq> nl) cs)" by simp
        with 2(1) [OF None 2(3), of b] None False nnl show ?thesis by simp
      qed
    qed
  next
    case (Some a)
    obtain r n where a: "a = (r, n)" by (cases a)
    from delim_match [OF Some [unfolded a]] obtain g where g: "c = d" "d \<notin> set (take g cs)"
      "nl \<notin> set (take g cs)" "r = (if keep then take g cs else [])" "n = g + 2"
      by blast
    from g(1) 2(3,4) have nb: "\<not> b" by auto
    from 2(2) [OF Some a [symmetric] 2(3), of False]
    have "once d False (re_sub (m_delim [d] [d] keep) (drop (n - 1) cs))" by simp
    moreover have "d \<notin> set r" "nl \<notin> set r" using g(2,3,4) by (auto split: if_splits)
    ultimately have "once d False (r @ re_sub (m_delim [d] [d] keep) (drop (n - 1) cs))"
      by (simp add: once_plain)
    with Some a nb show ?thesis by simp
  qed
qed

lemma takeWhile_dropWhile_same: "takeWhile P (dropWhile P xs) = []"
  by (induction xs) simp_all

lemma run_match:
  assumes "m_run d r (c # cs) = Some (r', n)"
  shows "r' = r" and "c = d" and "3 \<le> n" and "n = length (takeWhile (\<lambda>x. x = d) (c # cs))"
    and "drop (n - 1) cs = dropWhile (\<lambda>x. x = d) cs"
proof -
  from assms show 1: "r' = r" "3 \<le> n" "n = length (takeWhile (\<lambda>x. x = d) (c # cs))"
    by (auto simp: m_run_def Let_def split: if_splits)
  then show c: "c = d" by (auto split: if_splits)
  with 1(3) have "n - 1 = length (takeWhile (\<lambda>x. x = d) cs)" by simp
  then show "drop (n - 1) cs = dropWhile (\<lambda>x. x = d) cs"
    by (metis dropWhile_eq_drop)
qed

lemma run_norun:
  "r = [] \<or> r = [d, d] \<Longrightarrow> n = 0 \<or> n + length (takeWhile (\<lambda>x. x = d) xs) \<le> 2 \<Longrightarrow>
     norun d n (re_sub (m_run d r) xs)"
proof (induction "m_run d r" xs arbitrary: n rule: re_sub.induct)
  case 1
  then show ?case by simp
next
  case (2 c cs)
  show ?case
  proof (cases "m_run d r (c # cs)")
    case None
    then have k: "length (takeWhile (\<lambda>x. x = d) (c # cs)) \<le> 2"
      by (auto simp: m_run_def Let_def split: if_splits)
    show ?thesis
    proof (cases "c = d")
      case True
      with k 2(4) have "n < 2" "Suc n + length (takeWhile (\<lambda>x. x = d) cs) \<le> 2" by auto
      with 2(1) [OF None 2(3), of "Suc n"] None True show ?thesis by simp
    next
      case False
      with 2(1) [OF None 2(3), of 0] None show ?thesis by simp
    qed
  next
    case (Some a)
    obtain r' k where a: "a = (r', k)" by (cases a)
    note m = run_match [OF Some [unfolded a]]
    with 2(4) have n: "n = 0" by auto
    have "length (takeWhile (\<lambda>x. x = d) (drop (k - 1) cs)) = 0"
      unfolding m(5) by (simp add: takeWhile_dropWhile_same)
    then have "norun d j (re_sub (m_run d r) (drop (k - 1) cs))" if "j \<le> 2" for j
      using 2(2) [OF Some a [symmetric] 2(3), of j] that by simp
    from this [of 0] this [of "Suc (Suc 0)"] 2(3) Some a m(1,2) n show ?thesis by auto
  qed
qed

lemma once_mono: "once d b xs \<Longrightarrow> (b' \<longrightarrow> b) \<Longrightarrow> once d b' xs"
  by (induction xs arbitrary: b b') (auto split: if_splits)

lemma once_append:
  "nl \<notin> set seg \<Longrightarrow>
     once d b (seg @ rest) = (once d b seg \<and> once d (b \<or> d \<in> set seg) rest)"
  by (induction seg arbitrary: b) auto

lemma once_subseq: "subseq r seg \<Longrightarrow> nl \<notin> set seg \<Longrightarrow> once d b seg \<Longrightarrow> once d b r"
proof (induction r seg arbitrary: b rule: list_emb.induct)
  case (list_emb_Nil ys)
  then show ?case by simp
next
  case (list_emb_Cons xs ys y)
  from list_emb_Cons.prems obtain b' where "once d b' ys" "b \<longrightarrow> b'"
    by (auto split: if_splits)
  with list_emb_Cons.IH [of b'] list_emb_Cons.prems(1) show ?case by (auto intro: once_mono)
next
  case (list_emb_Cons2 x y xs ys)
  then show ?case by (auto split: if_splits)
qed

lemma once_re_sub:
  "(\<And>c cs r n. m (c # cs) = Some (r, n) \<Longrightarrow>
      0 < n \<and> nl \<notin> set (take n (c # cs)) \<and> subseq r (take n (c # cs))) \<Longrightarrow>
   once d b xs \<Longrightarrow> once d b (re_sub m xs)"
proof (induction m xs arbitrary: b rule: re_sub.induct)
  case (1 m)
  then show ?case by simp
next
  case (2 m c cs)
  show ?case
  proof (cases "m (c # cs)")
    case None
    from 2(4) obtain b' where b': "once d b' cs"
      "once d b (c # cs) = (if c = nl then True else if c = d then \<not> b \<and> b' else b' = b)"
      "c = nl \<longrightarrow> \<not> b'" "c \<noteq> nl \<and> c = d \<longrightarrow> b'" "c \<noteq> nl \<and> c \<noteq> d \<longrightarrow> b' = b"
      by (cases "c = nl"; cases "c = d") auto
    from 2(1) [OF None 2(3) b'(1)] have "once d b' (re_sub m cs)" .
    with None 2(4) b'(3,4,5) show ?thesis by (auto split: if_splits)
  next
    case (Some a)
    obtain r n where a: "a = (r, n)" by (cases a)
    let ?seg = "take n (c # cs)"
    from 2(3) [OF Some [unfolded a]] have n: "0 < n" "nl \<notin> set ?seg" "subseq r ?seg"
      by simp_all
    from n(1) have rest: "drop n (c # cs) = drop (n - 1) cs" by (cases n) simp_all
    have "once d b (?seg @ drop n (c # cs))" using 2(4) by simp
    with n(2) have s: "once d b ?seg" "once d (b \<or> d \<in> set ?seg) (drop (n - 1) cs)"
      by (simp_all add: once_append rest)
    from 2(2) [OF Some a [symmetric] 2(3) s(2)]
    have "once d (b \<or> d \<in> set ?seg) (re_sub m (drop (n - 1) cs))" .
    moreover from n(3) have sub: "set r \<subseteq> set ?seg" by (auto elim: list_emb_set)
    ultimately have "once d (b \<or> d \<in> set r) (re_sub m (drop (n - 1) cs))"
      by (auto intro: once_mono)
    moreover from once_subseq [OF n(3,2) s(1)] have "once d b r" .
    moreover from sub n(2) have "nl \<notin> set r" by auto
    ultimately have "once d b (r @ re_sub m (drop (n - 1) cs))" by (simp add: once_append)
    with Some a show ?thesis by simp
  qed
qed

lemma delim_inline:
  assumes "m_delim [d] [d] keep (c # cs) = Some (r, n)" and "d \<noteq> nl"
  shows "0 < n \<and> nl \<notin> set (take n (c # cs)) \<and> subseq r (take n (c # cs))"
proof -
  from delim_match [OF assms(1)] obtain g where g: "c = d" "g < length cs" "cs ! g = d"
    "nl \<notin> set (take g cs)" "r = (if keep then take g cs else [])" "n = g + 2"
    by blast
  from g(2,3,6) have seg: "take n (c # cs) = c # take g cs @ [d]"
    by (simp add: take_Suc_conv_app_nth)
  have "subseq r (c # take g cs @ [d])"
    unfolding g(5) by (intro list_emb_Cons list_emb_prefix) simp
  with seg g(1,4,6) assms(2) show ?thesis by auto
qed

lemma rule_inline:
  assumes "m_rule (c # cs) = Some (r, n)"
  shows "0 < n \<and> nl \<notin> set (take n (c # cs)) \<and> subseq r (take n (c # cs))"
proof -
  note m = run_match [OF assms [unfolded m_rule_def]]
  have "take n (c # cs) = takeWhile (\<lambda>x. x = dash) (c # cs)"
    unfolding m(4) by (metis takeWhile_eq_take)
  moreover have "nl \<notin> set (takeWhile (\<lambda>x. x = dash) (c # cs))"
    by (auto dest: set_takeWhileD simp: nl_def dash_def)
  ultimately show ?thesis using m(1,3) by simp
qed

lemma link_tail_Some:
  assumes "link_tail t = Some n"
  shows "n \<le> length t \<and> nl \<notin> set (take n t)"
proof -
  from assms obtain g k where p: "prefix (asc '']('') t"
    and l: "lazy_dot (lit (asc '')'')) (drop 2 t) = Some (g, k)" and n: "n = 2 + g + k"
    by (auto simp: link_tail_def split: if_splits option.splits)
  from lazy_dot_Some [OF l] have g: "g \<le> length (drop 2 t)" "nl \<notin> set (take g (drop 2 t))"
    "lit (asc '')'') (drop g (drop 2 t)) = Some k" by simp_all
  from lit_Some [OF g(3)] have k: "k = 1" "prefix (asc '')'') (drop g (drop 2 t))"
    by (simp_all add: asc_simps)
  from p obtain t' where t: "t = asc '']('' @ t'" by (auto simp: prefix_def)
  with k(2) obtain t'' where t': "drop g t' = asc '')'' @ t''" by (auto simp: prefix_def asc_simps)
  then have gl: "g < length t'" by (metis append_Cons asc_simps(2) drop_all list.discI not_le)
  have "take n t = asc '']('' @ take g t' @ asc '')''"
    using t t' gl n k(1)
    by (simp add: asc_simps) (metis Cons_nth_drop_Suc list.inject take_Suc_conv_app_nth)
  moreover from g(2) t have "nl \<notin> set (take g t')" by (simp add: asc_simps)
  ultimately show ?thesis using n k(1) gl t by (auto simp: asc_simps nl_def)
qed

lemma link_inline:
  assumes "m_link (c # cs) = Some (r, n)"
  shows "0 < n \<and> nl \<notin> set (take n (c # cs)) \<and> subseq r (take n (c # cs))"
proof -
  from assms obtain g k where c: "c = lbr" and l: "lazy_dot link_tail cs = Some (g, k)"
    and r: "r = take g cs" and n: "n = 1 + g + k"
    by (auto simp: m_link_def split: if_splits option.splits)
  from lazy_dot_Some [OF l] have g: "g \<le> length cs" "nl \<notin> set (take g cs)"
    "link_tail (drop g cs) = Some k" by simp_all
  from link_tail_Some [OF g(3)] have k: "nl \<notin> set (take k (drop g cs))" by simp
  have seg: "take n (c # cs) = c # take g cs @ take k (drop g cs)"
    using n g(1) by (simp add: take_add)
  have "subseq r (c # take g cs @ take k (drop g cs))"
    unfolding r by (intro list_emb_Cons list_emb_prefix) simp
  with seg c g(2) k n show ?thesis by (auto simp: nl_def lbr_def)
qed

lemma once_dropWhile_nl: "once d b cs \<Longrightarrow> once d False (dropWhile (\<lambda>x. x = nl) cs)"
  by (induction cs arbitrary: b) (auto intro: once_mono)

lemma once_newlines: "once d b xs \<Longrightarrow> once d b (re_sub m_newlines xs)"
proof (induction m_newlines xs arbitrary: b rule: re_sub.induct)
  case 1
  then show ?case by simp
next
  case (2 c cs)
  show ?case
  proof (cases "m_newlines (c # cs)")
    case None
    from 2(3) obtain b' where b': "once d b' cs"
      "c = nl \<longrightarrow> \<not> b'" "c \<noteq> nl \<and> c = d \<longrightarrow> b'" "c \<noteq> nl \<and> c \<noteq> d \<longrightarrow> b' = b"
      by (cases "c = nl"; cases "c = d") auto
    from 2(1) [OF None b'(1)] have "once d b' (re_sub m_newlines cs)" .
    with None 2(3) b'(2,3,4) show ?thesis by (auto split: if_splits)
  next
    case (Some a)
    obtain r n where a: "a = (r, n)" by (cases a)
    note m = run_match [OF Some [unfolded a m_newlines_def]]
    from 2(3) m(2) have "once d False cs" by simp
    then have "once d False (drop (n - 1) cs)" unfolding m(5) by (rule once_dropWhile_nl)
    from 2(2) [OF Some a [symmetric] this] Some a m(1) show ?thesis by simp
  qed
qed

lemma once_suffix: "once d b (ps @ xs) \<Longrightarrow> once d False xs"
  by (induction ps arbitrary: b) (auto intro: once_mono split: if_splits)

lemma once_prefix: "once d b (xs @ ss) \<Longrightarrow> once d b xs"
  by (induction xs arbitrary: b) (auto split: if_splits)

lemma once_strip: "once d b xs \<Longrightarrow> once d False (strip xs)"
  using strip_sublist [of xs] by (metis once_prefix once_suffix)

lemma norun_mono: "norun d n xs \<Longrightarrow> j \<le> n \<Longrightarrow> norun d j xs"
  by (induction xs arbitrary: n j) (auto split: if_splits)

lemma norun_suffix: "norun d n (ps @ xs) \<Longrightarrow> norun d 0 xs"
  by (induction ps arbitrary: n) (auto intro: norun_mono split: if_splits)

lemma norun_prefix: "norun d n (xs @ ss) \<Longrightarrow> norun d n xs"
  by (induction xs arbitrary: n) (auto split: if_splits)

lemma norun_strip: "norun d n xs \<Longrightarrow> norun d 0 (strip xs)"
  using strip_sublist [of xs] by (metis norun_prefix norun_suffix)

lemma norun_newlines: "d \<noteq> nl \<Longrightarrow> norun d n xs \<Longrightarrow> norun d n (re_sub m_newlines xs)"
proof (induction m_newlines xs arbitrary: n rule: re_sub.induct)
  case 1
  then show ?case by simp
next
  case (2 c cs)
  show ?case
  proof (cases "m_newlines (c # cs)")
    case None
    from 2(4) obtain n' where n': "norun d n' cs" "c = d \<longrightarrow> n < 2 \<and> n' = Suc n" "c \<noteq> d \<longrightarrow> n' = 0"
      by (cases "c = d") auto
    from 2(1) [OF None 2(3) n'(1)] have "norun d n' (re_sub m_newlines cs)" .
    with None n'(2,3) show ?thesis by auto
  next
    case (Some a)
    obtain r k where a: "a = (r, k)" by (cases a)
    note m = run_match [OF Some [unfolded a m_newlines_def]]
    from 2(4) m(2) 2(3) have "norun d 0 cs" by simp
    then have "norun d 0 (drop (k - 1) cs)"
      by (metis append_take_drop_id norun_suffix)
    from 2(2) [OF Some a [symmetric] 2(3) this] Some a m(1,2) 2(3) show ?thesis by simp
  qed
qed

lemma re_sub_subseq:
  "(\<And>c cs r n. m (c # cs) = Some (r, n) \<Longrightarrow> 0 < n \<and> subseq r (take n (c # cs))) \<Longrightarrow>
   subseq (re_sub m xs) xs"
proof (induction m xs rule: re_sub.induct)
  case (1 m)
  then show ?case by simp
next
  case (2 m c cs)
  show ?case
  proof (cases "m (c # cs)")
    case None
    with 2(1) [OF None 2(3)] show ?thesis by simp
  next
    case (Some a)
    obtain r n where a: "a = (r, n)" by (cases a)
    from 2(3) [OF Some [unfolded a]] have n: "0 < n" "subseq r (take n (c # cs))" by simp_all
    from n(1) have rest: "drop n (c # cs) = drop (n - 1) cs" by (cases n) simp_all
    from 2(2) [OF Some a [symmetric] 2(3)]
    have "subseq (re_sub m (drop (n - 1) cs)) (drop n (c # cs))" by (simp add: rest)
    with n(2) have "subseq (r @ re_sub m (drop (n - 1) cs)) (take n (c # cs) @ drop n (c # cs))"
      by (rule list_emb_append_mono)
    with Some a show ?thesis by simp
  qed
qed

lemma heading_sub:
  "m_heading (c # cs) = Some (r, n) \<Longrightarrow> 0 < n \<and> subseq r (take n (c # cs))"
  by (auto simp: m_heading_def Let_def split: if_splits)

lemma delim_sub:
  assumes "m_delim (d # op) cl keep (c # cs) = Some (r, n)"
  shows "0 < n \<and> subseq r (take n (c # cs))"
proof -
  let ?a = "length (d # op)"
  from assms obtain g k where r: "r = (if keep then take g (drop ?a (c # cs)) else [])"
    and n: "n = ?a + g + k"
    by (auto simp: m_delim_def split: if_splits option.splits)
  have "take n (c # cs) = take ?a (c # cs) @ take g (drop ?a (c # cs)) @
      take k (drop g (drop ?a (c # cs)))"
    unfolding n by (simp only: take_add add.assoc)
  moreover have "subseq r (take ?a (c # cs) @ take g (drop ?a (c # cs)) @
      take k (drop g (drop ?a (c # cs))))"
    unfolding r by (intro list_emb_append2 list_emb_prefix) simp
  ultimately show ?thesis using n by simp
qed

lemma run_sub:
  assumes "m_run d r (c # cs) = Some (r', n)" and "r = [] \<or> r = [d, d]"
  shows "0 < n \<and> subseq r' (take n (c # cs))"
proof -
  note m = run_match [OF assms(1)]
  define tw where "tw = takeWhile (\<lambda>x. x = d) (c # cs)"
  have n: "n = length tw" using m(4) by (simp only: tw_def)
  have "take (length tw) (c # cs) = tw"
    unfolding tw_def by (rule takeWhile_eq_take [symmetric])
  moreover have "replicate (length tw) d = tw"
    by (rule replicate_length_same) (auto simp: tw_def dest: set_takeWhileD)
  ultimately have seg: "take n (c # cs) = replicate n d" by (simp only: n)
  from m(3) obtain j where "n = Suc (Suc j)" by (cases n; cases "n - 1") auto
  then have "subseq [d, d] (replicate n d)" by simp
  with seg m(1,3) assms(2) show ?thesis by auto
qed

lemma strip_subseq: "subseq (strip xs) xs"
proof -
  from strip_sublist [of xs] obtain ps ss where xs: "xs = ps @ strip xs @ ss" by blast
  have "subseq (strip xs) (ps @ strip xs @ ss)"
    by (intro list_emb_append2 list_emb_prefix) simp
  with xs show ?thesis by simp
qed

lemma subseq_set: "subseq xs ys \<Longrightarrow> set xs \<subseteq> set ys"
  by (auto elim: list_emb_set)

lemma special_chars:
  "star \<noteq> nl" "tick \<noteq> nl" "pipe \<noteq> nl" "dash \<noteq> nl"
  by (simp_all add: star_def tick_def pipe_def dash_def nl_def)

lemma bold_subseq: "subseq (re_sub m_bold xs) xs"
  unfolding m_bold_def by (rule re_sub_subseq) (rule delim_sub)

lemma italic_subseq: "subseq (re_sub m_italic xs) xs"
  unfolding m_italic_def by (rule re_sub_subseq) (rule delim_sub)

lemma code_subseq: "subseq (re_sub m_code xs) xs"
  unfolding m_code_def by (rule re_sub_subseq) (rule delim_sub)

lemma pipe_subseq: "subseq (re_sub m_pipe xs) xs"
  unfolding m_pipe_def by (rule re_sub_subseq) (rule delim_sub)

lemma heading_subseq: "subseq (re_sub m_heading xs) xs"
  by (rule re_sub_subseq) (rule heading_sub)

lemma link_subseq: "subseq (re_sub m_link xs) xs"
  by (rule re_sub_subseq) (use link_inline in blast)

lemma rule_subseq: "subseq (re_sub m_rule xs) xs"
  unfolding m_rule_def by (rule re_sub_subseq) (rule run_sub, assumption, simp)

lemma newlines_subseq: "subseq (re_sub m_newlines xs) xs"
  unfolding m_newlines_def by (rule re_sub_subseq) (rule run_sub, assumption, simp)

lemma once_code: "once d b xs \<Longrightarrow> once d b (re_sub m_code xs)"
  unfolding m_code_def by (rule once_re_sub) (rule delim_inline, assumption, rule special_chars)

lemma once_pipe: "once d b xs \<Longrightarrow> once d b (re_sub m_pipe xs)"
  unfolding m_pipe_def by (rule once_re_sub) (rule delim_inline, assumption, rule special_chars)

lemma once_link: "once d b xs \<Longrightarrow> once d b (re_sub m_link xs)"
  by (rule once_re_sub) (rule link_inline)

lemma once_rule: "once d b xs \<Longrightarrow> once d b (re_sub m_rule xs)"
  by (rule once_re_sub) (rule rule_inline)

lemma tail_preserves_once:
  assumes "once d b xs"
  shows "once d False (strip (re_sub m_newlines (re_sub m_rule xs)))"
  by (intro once_strip [of d b] once_newlines once_rule assms)

lemmas subseq_then = subseq_order.order_trans

lemma text_subseq_heading: "subseq (markdown_to_text s) (re_sub m_heading s)"
  unfolding markdown_to_text_def Let_def
  by (rule subseq_then [OF strip_subseq], rule subseq_then [OF newlines_subseq],
      rule subseq_then [OF rule_subseq], rule subseq_then [OF pipe_subseq],
      rule subseq_then [OF link_subseq], rule subseq_then [OF code_subseq],
      rule subseq_then [OF italic_subseq], rule bold_subseq)

lemma text_subseq: "subseq (markdown_to_text s) s"
  by (rule subseq_then [OF text_subseq_heading heading_subseq])

lemma text_nohash: "hash \<notin> set (markdown_to_text s)"
  using subseq_set [OF text_subseq_heading [of s]] heading_nohash [of s] by blast

lemma text_once_star: "once star False (markdown_to_text s)"
  unfolding markdown_to_text_def Let_def
  by (intro tail_preserves_once [of star False] once_pipe once_link once_code)
     (simp add: m_italic_def delim_once special_chars)

lemma text_once_tick: "once tick False (markdown_to_text s)"
  unfolding markdown_to_text_def Let_def
  by (intro tail_preserves_once [of tick False] once_pipe once_link)
     (simp add: m_code_def delim_once special_chars)

lemma text_once_pipe: "once pipe False (markdown_to_text s)"
  unfolding markdown_to_text_def Let_def
  by (intro tail_preserves_once [of pipe False])
     (simp add: m_pipe_def delim_once special_chars)

lemma text_norun_dash: "norun dash 0 (markdown_to_text s)"
  unfolding markdown_to_text_def Let_def
  by (intro norun_strip [of dash 0] norun_newlines special_chars)
     (simp add: m_rule_def run_norun)

lemma text_norun_nl: "norun nl 0 (markdown_to_text s)"
  unfolding markdown_to_text_def Let_def
  by (intro norun_strip [of nl 0]) (simp add: m_newlines_def run_norun)

lemma text_stripped: "strip (markdown_to_text s) = markdown_to_text s"
  unfolding markdown_to_text_def Let_def by (rule strip_strip)

lemma second_pass:
  "markdown_to_text (markdown_to_text s) =
     strip (re_sub m_newlines (re_sub m_rule (re_sub m_pipe (re_sub m_link (markdown_to_text s)))))"
proof -
  define t where "t = markdown_to_text s"
  have 1: "re_sub m_heading t = t" unfolding t_def by (rule heading_id) (rule text_nohash)
  have 2: "re_sub m_bold t = t" unfolding t_def by (rule bold_id) (rule text_once_star)
  have 3: "re_sub m_italic t = t"
    unfolding t_def m_italic_def by (rule delim_id) (rule text_once_star, rule special_chars)
  have 4: "re_sub m_code t = t"
    unfolding t_def m_code_def by (rule delim_id) (rule text_once_tick, rule special_chars)
  have "markdown_to_text t =
      strip (re_sub m_newlines (re_sub m_rule (re_sub m_pipe (re_sub m_link t))))"
    by (simp add: markdown_to_text_def [of t] Let_def 1 2 3 4)
  then show ?thesis by (simp only: t_def)
qed

lemma fixed_iff:
  "markdown_to_text (markdown_to_text s) = markdown_to_text s \<longleftrightarrow>
   re_sub m_link (markdown_to_text s) = markdown_to_text s"
proof
  define t where "t = markdown_to_text s"
  from second_pass [of s] have sp: "markdown_to_text t =
      strip (re_sub m_newlines (re_sub m_rule (re_sub m_pipe (re_sub m_link t))))"
    by (simp only: t_def)
  assume "re_sub m_link (markdown_to_text s) = markdown_to_text s"
  then have 5: "re_sub m_link t = t" by (simp only: t_def)
  have 6: "re_sub m_pipe t = t"
    unfolding t_def m_pipe_def by (rule delim_id) (rule text_once_pipe, rule special_chars)
  have 7: "re_sub m_rule t = t" unfolding t_def m_rule_def by (rule run_id) (rule text_norun_dash)
  have 8: "re_sub m_newlines t = t"
    unfolding t_def m_newlines_def by (rule run_id) (rule text_norun_nl)
  have 9: "strip t = t" unfolding t_def by (rule text_stripped)
  from sp have "markdown_to_text t = t" by (simp only: 5 6 7 8 9)
  then show "markdown_to_text (markdown_to_text s) = markdown_to_text s" by (simp only: t_def)
next
  define t where "t = markdown_to_text s"
  from second_pass [of s] have sp: "markdown_to_text t =
      strip (re_sub m_newlines (re_sub m_rule (re_sub m_pipe (re_sub m_link t))))"
    by (simp only: t_def)
  assume "markdown_to_text (markdown_to_text s) = markdown_to_text s"
  then have "markdown_to_text t = t" by (simp only: t_def)
  with sp have "strip (re_sub m_newlines (re_sub m_rule (re_sub m_pipe (re_sub m_link t)))) = t"
    by simp
  moreover have "subseq (strip (re_sub m_newlines (re_sub m_rule (re_sub m_pipe (re_sub m_link t)))))
      (re_sub m_link t)"
    by (rule subseq_then [OF strip_subseq], rule subseq_then [OF newlines_subseq],
        rule subseq_then [OF rule_subseq], rule pipe_subseq)
  ultimately have "subseq t (re_sub m_link t)" by simp
  with link_subseq [of t] have "re_sub m_link t = t" by (rule subseq_order.antisym)
  then show "re_sub m_link (markdown_to_text s) = markdown_to_text s" by (simp only: t_def)
qed























lemma plain_append [simp]: "plain (a @ b) \<longleftrightarrow> plain a \<and> plain b"
  by (auto simp: plain_def)













lemmas text_eval = markdown_to_text_def m_heading_def m_bold_def m_italic_def m_code_def
  m_link_def link_tail_def m_pipe_def m_rule_def m_newlines_def m_run_def m_delim_def lit_def
  strip_def is_space_def asc_simps nl_def hash_def star_def dash_def lbr_def tick_def pipe_def
  Let_def





text \<open>
  C2, as the code has it. The conversion applied to its own output gives the same text
  exactly when that output holds no link any more, that is, when the substitution of the
  pattern of links leaves it unchanged: after one conversion a text has no \<open>#\<close>, on no line two
  stars, two backticks or two pipes, no run of three dashes or of three newlines and no
  whitespace at its ends, so that only the substitution of links can still change it. In
  particular the conversion is idempotent on every input without an opening square bracket.
\<close>

theorem text_idempotent:
  "(markdown_to_text (markdown_to_text s) = markdown_to_text s \<longleftrightarrow>
      re_sub m_link (markdown_to_text s) = markdown_to_text s) \<and>
   (lbr \<notin> set s \<longrightarrow> markdown_to_text (markdown_to_text s) = markdown_to_text s)"
proof -
  have "markdown_to_text (markdown_to_text s) = markdown_to_text s" if "lbr \<notin> set s"
  proof -
    from that subseq_set [OF text_subseq [of s]] have "lbr \<notin> set (markdown_to_text s)" by blast
    then have "re_sub m_link (markdown_to_text s) = markdown_to_text s" by (rule link_id)
    then show ?thesis by (simp only: fixed_iff)
  qed
  with fixed_iff [of s] show ?thesis by blast
qed

lemma sample_text:
  "markdown_to_text (asc ''# **a** `b`\<newline>\<newline>\<newline>\<newline>|c|d'') = asc ''a b\<newline>\<newline>d''"
  by (simp add: text_eval)

text \<open>A text with a heading, bold text, code, four newlines and a table row, and no link.\<close>

theorem text_idempotent_witness:
  "markdown_to_text (markdown_to_text (asc ''# **a** `b`\<newline>\<newline>\<newline>\<newline>|c|d'')) =
   markdown_to_text (asc ''# **a** `b`\<newline>\<newline>\<newline>\<newline>|c|d'') \<and>
   markdown_to_text (asc ''# **a** `b`\<newline>\<newline>\<newline>\<newline>|c|d'') = asc ''a b\<newline>\<newline>d''"
proof -
  have "lbr \<notin> set (asc ''# **a** `b`\<newline>\<newline>\<newline>\<newline>|c|d'')"
    by (simp add: asc_simps lbr_def)
  with text_idempotent [of "asc ''# **a** `b`\<newline>\<newline>\<newline>\<newline>|c|d''"] sample_text
  show ?thesis by blast
qed

text \<open>
  C2 as stated fails for a link inside the text of a link: the first conversion takes the
  outer brackets for the text of the inner link and leaves a link, which the second one
  replaces by its text.
\<close>

theorem nested_link_twice:
  "markdown_to_text (asc ''[[a](b)](c)'') = asc ''[a](c)'' \<and>
   markdown_to_text (markdown_to_text (asc ''[[a](b)](c)'')) = asc ''a''"
proof -
  have 1: "markdown_to_text (asc ''[[a](b)](c)'') = asc ''[a](c)''" by (simp add: text_eval)
  have 2: "markdown_to_text (asc ''[a](c)'') = asc ''a''" by (simp add: text_eval)
  from 1 2 show ?thesis by simp
qed





end
